theory Spec2Isabelle
  imports Complex_Main "HOL-Library.Word" "HOL-Library.Multiset"
begin

section \<open>PDF signing component: data model\<close>

text \<open>
  The component keeps its state in Angular signals. The model is a record of the signals
  that the placement, drag, resize, mask-replacement and export code reads or writes.
  JavaScript numbers that hold coordinates and sizes are modelled as \<open>real\<close> (exact
  arithmetic in place of IEEE doubles); the arithmetic of the image processing
  (luminance, colour distance, alpha) is modelled in binary64, operation by operation.
  Ids are the integer millisecond timestamps that \<open>Date.now()\<close> returns; a byte of a
  \<open>Uint8ClampedArray\<close> is an \<open>8 word\<close>.
  Record fields carry a short prefix where the TypeScript name (\<open>x\<close>, \<open>id\<close>,
  \<open>width\<close>, ...) is shared between several interfaces.

  The repository holds three revisions of the component. Trimming, drag, resize,
  deletion and export read the same in all three, and so does the rewriting of the
  instances on mask replacement. Placement is modelled as in the two revisions that
  keep an \<open>isPlacingSignature\<close> flag (set on mask replacement) and size a new
  instance at 0.15 of the canvas width; the third revision has no such flag, tests
  \<open>!draggedSignature()\<close> instead and uses 0.20. Automatic background
  removal exists in a luminance-histogram form and in a seeded chroma-key form, both
  modelled below.
\<close>

type_synonym byte = "8 word"

record Position =
  pos_x :: real
  pos_y :: real

record PlacedSignature =
  sig_id :: int
  position :: Position
  page :: nat
  width :: real
  height :: real
  aspectRatio :: real

text \<open>\<open>ImageData\<close>: RGBA bytes in row-major order, four per pixel.\<close>

record ImageData =
  data :: "byte list"
  img_width :: nat
  img_height :: nat

text \<open>
  A data URL is either the empty string or the PNG encoding of a canvas; the encoding
  itself is the browser's, so the model keeps the canvas content it encodes.
\<close>

datatype DataUrl = EmptyUrl | PngUrl ImageData

record TrimmedSize =
  ts_width :: int
  ts_height :: int
  ts_aspectRatio :: real

record DragState =
  drag_signature :: PlacedSignature
  startPos :: Position
  drag_eventStartPos :: Position

record StartSize =
  start_width :: real
  start_height :: real

record ResizeState =
  resize_signature :: PlacedSignature
  startSize :: StartSize
  resize_eventStartPos :: Position

record AppState =
  signatureDataUrl :: "DataUrl option"
  trimmedSignatureSize :: "TrimmedSize option"
  placedSignatures :: "PlacedSignature list"
  isPlacingSignature :: bool
  currentPage :: nat
  draggedSignature :: "DragState option"
  resizingSignature :: "ResizeState option"
  interactionOccurred :: bool

text \<open>JavaScript truthiness of \<open>string | null\<close>: \<open>null\<close> and \<open>''\<close> are falsy.\<close>

fun truthyUrl :: "DataUrl option \<Rightarrow> bool" where
  "truthyUrl None = False"
| "truthyUrl (Some EmptyUrl) = False"
| "truthyUrl (Some (PngUrl _)) = True"

definition pdfRenderScale :: real where
  "pdfRenderScale = 1.5"

section \<open>Export: render pixels to document points\<close>

text \<open>
  The body of the inner loop of \<open>applyAndDownload\<close>: the rectangle handed to
  \<open>pageToSign.drawImage\<close> for one placed signature. \<open>renderScale\<close> is the value of
  the field \<open>this.pdfRenderScale\<close>, \<open>scaleFactor\<close> is
  \<open>viewport.width / canvas.offsetWidth\<close> and \<open>pageHeightInPoints\<close> comes from
  \<open>pageToSign.getSize()\<close>.
\<close>

record DrawRect =
  draw_x :: real
  draw_y :: real
  draw_width :: real
  draw_height :: real

definition applyAndDownload_rect ::
  "real \<Rightarrow> real \<Rightarrow> real \<Rightarrow> PlacedSignature \<Rightarrow> DrawRect" where
  "applyAndDownload_rect renderScale scaleFactor pageHeightInPoints sig =
     (let canvasX = pos_x (position sig) * scaleFactor;
          canvasY = pos_y (position sig) * scaleFactor;
          canvasWidth = width sig * scaleFactor;
          canvasHeight = height sig * scaleFactor;
          pointX = canvasX / renderScale;
          pointWidth = canvasWidth / renderScale;
          pointHeight = canvasHeight / renderScale;
          pointY = pageHeightInPoints - (canvasY / renderScale) - pointHeight
      in \<lparr>draw_x = pointX, draw_y = pointY, draw_width = pointWidth,
          draw_height = pointHeight\<rparr>)"

section \<open>Placement store operations\<close>

text \<open>
  What \<open>placeSignatureOnClick\<close> reads from the mouse event and the DOM:
  whether the click target lies inside a \<open>.signature-wrapper\<close>, the client
  coordinates, the viewer's bounding rectangle and scroll offsets, the canvas's
  \<open>offsetWidth\<close>, and the clock (\<open>Date.now()\<close>).
\<close>

record ClickEvent =
  targetInWrapper :: bool
  clientX :: real
  clientY :: real
  rectLeft :: real
  rectTop :: real
  scrollLeft :: real
  scrollTop :: real
  offsetWidth :: real
  now :: int

definition placeSignatureOnClick :: "ClickEvent \<Rightarrow> AppState \<Rightarrow> AppState" where
  "placeSignatureOnClick ev st =
     (if interactionOccurred st then st
      else if targetInWrapper ev then st
      else if isPlacingSignature st \<and> truthyUrl (signatureDataUrl st) then
        (case trimmedSignatureSize st of
           None \<Rightarrow> st
         | Some sizeInfo \<Rightarrow>
             (let defaultWidth = offsetWidth ev * 0.15;
                  defaultHeight = defaultWidth / ts_aspectRatio sizeInfo;
                  x = clientX ev - rectLeft ev;
                  y = clientY ev - rectTop ev;
                  finalX = x + scrollLeft ev;
                  finalY = y + scrollTop ev;
                  newSignature =
                    \<lparr>sig_id = now ev,
                     position = \<lparr>pos_x = finalX - defaultWidth / 2,
                                 pos_y = finalY - defaultHeight / 2\<rparr>,
                     page = currentPage st,
                     width = defaultWidth,
                     height = defaultHeight,
                     aspectRatio = ts_aspectRatio sizeInfo\<rparr>
              in st\<lparr>placedSignatures := placedSignatures st @ [newSignature]\<rparr>))
      else st)"

definition deleteSignature :: "int \<Rightarrow> AppState \<Rightarrow> AppState" where
  "deleteSignature idToDelete st =
     st\<lparr>placedSignatures := filter (\<lambda>s. sig_id s \<noteq> idToDelete) (placedSignatures st)\<rparr>"

definition dragStart :: "Position \<Rightarrow> PlacedSignature \<Rightarrow> AppState \<Rightarrow> AppState" where
  "dragStart eventPos signature st =
     st\<lparr>interactionOccurred := True,
        draggedSignature :=
          Some \<lparr>drag_signature = signature, startPos = position signature,
                drag_eventStartPos = eventPos\<rparr>\<rparr>"

definition resizeStart :: "Position \<Rightarrow> PlacedSignature \<Rightarrow> AppState \<Rightarrow> AppState" where
  "resizeStart eventPos signature st =
     st\<lparr>interactionOccurred := True,
        resizingSignature :=
          Some \<lparr>resize_signature = signature,
                startSize = \<lparr>start_width = width signature, start_height = height signature\<rparr>,
                resize_eventStartPos = eventPos\<rparr>\<rparr>"

text \<open>
  \<open>onDrag\<close> handles every pointer move: the drag branch first (and returns), the
  resize branch otherwise. \<open>Math.max(20, ...)\<close> is \<open>max 20\<close>.
\<close>

definition onDrag :: "Position \<Rightarrow> AppState \<Rightarrow> AppState" where
  "onDrag eventPos st =
     (case draggedSignature st of
        Some currentDrag \<Rightarrow>
          (let dx = pos_x eventPos - pos_x (drag_eventStartPos currentDrag);
               dy = pos_y eventPos - pos_y (drag_eventStartPos currentDrag)
           in st\<lparr>placedSignatures :=
                   map (\<lambda>s. if sig_id s = sig_id (drag_signature currentDrag)
                             then s\<lparr>position := \<lparr>pos_x = pos_x (startPos currentDrag) + dx,
                                                 pos_y = pos_y (startPos currentDrag) + dy\<rparr>\<rparr>
                             else s)
                       (placedSignatures st)\<rparr>)
      | None \<Rightarrow>
          (case resizingSignature st of
             Some currentResize \<Rightarrow>
               (let dx = pos_x eventPos - pos_x (resize_eventStartPos currentResize);
                    newWidth = max 20 (start_width (startSize currentResize) + dx);
                    newHeight = newWidth / aspectRatio (resize_signature currentResize)
                in st\<lparr>placedSignatures :=
                        map (\<lambda>s. if sig_id s = sig_id (resize_signature currentResize)
                                  then s\<lparr>width := newWidth, height := newHeight\<rparr>
                                  else s)
                            (placedSignatures st)\<rparr>)
           | None \<Rightarrow> st))"

text \<open>
  \<open>onEndInteraction\<close> clears both gestures at once and schedules the reset of
  \<open>interactionOccurred\<close> with \<open>setTimeout(..., 0)\<close>; the scheduled callback is the
  separate step \<open>interactionTimeout\<close>.
\<close>

definition onEndInteraction :: "AppState \<Rightarrow> AppState" where
  "onEndInteraction st = st\<lparr>draggedSignature := None, resizingSignature := None\<rparr>"

definition interactionTimeout :: "AppState \<Rightarrow> AppState" where
  "interactionTimeout st = st\<lparr>interactionOccurred := False\<rparr>"

section \<open>Trimming a signature image\<close>

text \<open>
  \<open>processSignatureImage\<close> scans the alpha channel row by row for the bounding box
  of the pixels with alpha above 0. \<open>data[i] > 0\<close> on an index outside the array
  compares \<open>undefined\<close> and is false.
\<close>

record BBox =
  minX :: int
  minY :: int
  maxX :: int
  maxY :: int

definition opaqueAt :: "ImageData \<Rightarrow> nat \<Rightarrow> nat \<Rightarrow> bool" where
  "opaqueAt img x y =
     (let i = (y * img_width img + x) * 4 + 3
      in i < length (data img) \<and> 0 < unat (data img ! i))"

definition scanStep :: "ImageData \<Rightarrow> nat \<Rightarrow> nat \<Rightarrow> BBox \<Rightarrow> BBox" where
  "scanStep img y x bb =
     (if opaqueAt img x y
      then \<lparr>minX = min (minX bb) (int x), minY = min (minY bb) (int y),
            maxX = max (maxX bb) (int x), maxY = max (maxY bb) (int y)\<rparr>
      else bb)"

definition scanBounds :: "ImageData \<Rightarrow> BBox" where
  "scanBounds img =
     fold (\<lambda>y. fold (scanStep img y) [0..<img_width img]) [0..<img_height img]
       \<lparr>minX = int (img_width img), minY = int (img_height img), maxX = -1, maxY = -1\<rparr>"

text \<open>
  \<open>finalCtx.drawImage(tempCanvas, minX, minY, w, h, 0, 0, w, h)\<close> copies the
  sub-rectangle into a canvas of exactly \<open>w\<close> by \<open>h\<close> pixels.
\<close>

definition cropRows :: "ImageData \<Rightarrow> nat \<Rightarrow> nat \<Rightarrow> nat \<Rightarrow> nat \<Rightarrow> byte list" where
  "cropRows img x0 y0 w h =
     concat (map (\<lambda>y. take (4 * w) (drop ((y * img_width img + x0) * 4) (data img)))
                 [y0..<y0 + h])"

record Processed =
  dataUrl :: DataUrl
  p_width :: int
  p_height :: int

datatype error = ImageLoadError | NoContext | NoFinalContext | CouldNotProcess | TypeError

text \<open>
  The browser side of the promise: whether the two \<open>getContext('2d')\<close> calls return
  a context. The decoded image is \<open>None\<close> when \<open>img.onerror\<close> fires. A rejected
  promise is \<open>Inl\<close>, a resolved one \<open>Inr\<close>.
\<close>

record CanvasEnv =
  ctxAvailable :: bool
  finalCtxAvailable :: bool

definition processSignatureImage :: "CanvasEnv \<Rightarrow> ImageData option \<Rightarrow> error + Processed" where
  "processSignatureImage env decoded =
     (case decoded of
        None \<Rightarrow> Inl ImageLoadError
      | Some img \<Rightarrow>
          if \<not> ctxAvailable env then Inl NoContext
          else
            (let bb = scanBounds img in
             if maxX bb = -1 then Inr \<lparr>dataUrl = EmptyUrl, p_width = 0, p_height = 0\<rparr>
             else
               (let trimmedWidth = maxX bb - minX bb + 1;
                    trimmedHeight = maxY bb - minY bb + 1
                in if \<not> finalCtxAvailable env then Inl NoFinalContext
                   else Inr \<lparr>dataUrl =
                               PngUrl \<lparr>data = cropRows img (nat (minX bb)) (nat (minY bb))
                                                (nat trimmedWidth) (nat trimmedHeight),
                                       img_width = nat trimmedWidth,
                                       img_height = nat trimmedHeight\<rparr>,
                             p_width = trimmedWidth, p_height = trimmedHeight\<rparr>)))"

text \<open>
  \<open>finalizeSignature\<close> throws before it writes any signal when the processed width
  is 0; otherwise it stores the trimmed image and its size and rewrites every placed
  signature.
\<close>

definition finalizeSignature :: "CanvasEnv \<Rightarrow> ImageData option \<Rightarrow> AppState \<Rightarrow> error + AppState" where
  "finalizeSignature env decoded st =
     (case processSignatureImage env decoded of
        Inl e \<Rightarrow> Inl e
      | Inr processed \<Rightarrow>
          if p_width processed = 0 then Inl CouldNotProcess
          else
            (let newAspectRatio = real_of_int (p_width processed) / real_of_int (p_height processed)
             in Inr (st\<lparr>signatureDataUrl := Some (dataUrl processed),
                        trimmedSignatureSize :=
                          Some \<lparr>ts_width = p_width processed, ts_height = p_height processed,
                                ts_aspectRatio = newAspectRatio\<rparr>,
                        isPlacingSignature := True,
                        placedSignatures :=
                          map (\<lambda>s. s\<lparr>aspectRatio := newAspectRatio,
                                      height := width s / newAspectRatio\<rparr>)
                              (placedSignatures st)\<rparr>)))"

section \<open>Event traces\<close>

text \<open>
  The component starts with the signals' initial values and is driven by events. A
  mask replacement whose promise rejects leaves every signal as it was: the callers
  catch the exception, and \<open>finalizeSignature\<close> throws before its first write.
\<close>

definition initialState :: AppState where
  "initialState =
     \<lparr>signatureDataUrl = None, trimmedSignatureSize = None, placedSignatures = [],
      isPlacingSignature = False, currentPage = 1, draggedSignature = None,
      resizingSignature = None, interactionOccurred = False\<rparr>"

datatype Event =
    PlaceClick ClickEvent
  | PointerMove Position
  | MaskReplace CanvasEnv "ImageData option"
  | DragStart Position PlacedSignature
  | ResizeStart Position PlacedSignature
  | EndInteraction
  | InteractionTimeout
  | Delete int

fun step :: "Event \<Rightarrow> AppState \<Rightarrow> AppState" where
  "step (PlaceClick ev) st = placeSignatureOnClick ev st"
| "step (PointerMove p) st = onDrag p st"
| "step (MaskReplace env decoded) st =
     (case finalizeSignature env decoded st of Inl e \<Rightarrow> st | Inr st' \<Rightarrow> st')"
| "step (DragStart p s) st = dragStart p s st"
| "step (ResizeStart p s) st = resizeStart p s st"
| "step EndInteraction st = onEndInteraction st"
| "step InteractionTimeout st = interactionTimeout st"
| "step (Delete i) st = deleteSignature i st"

definition run :: "Event list \<Rightarrow> AppState \<Rightarrow> AppState" where
  "run evs st = fold step evs st"

section \<open>Automatic background removal (luminance histogram)\<close>

text \<open>
  \<open>_removeBackgroundAutomatically\<close> in its histogram form. Colours are the
  \<open>[number, number, number]\<close> triples read from the byte array. A map key is the
  string built from the three rounded channels, modelled as the triple of integers it
  prints; the \<open>Map\<close> is an association list in insertion order, which is the order
  \<open>hist.values()\<close> iterates in.
\<close>

subsection \<open>Binary64 arithmetic\<close>

text \<open>
  A JavaScript number is an IEEE 754 binary64 value, and every arithmetic operation
  returns the exact result rounded to the nearest such value, ties to the even
  significand. \<open>binade v\<close> is the exponent \<open>e\<close> with \<open>2^e \<le> v < 2^(e+1)\<close> for a
  positive \<open>v\<close>; a value of that binade is a multiple of \<open>2^(e-52)\<close>. The model
  covers the normal range (no overflow to infinity, no subnormal numbers, no NaN),
  which holds every value the image processing computes: they are 0 or lie between
  \<open>2^-60\<close> and \<open>2^20\<close>, and every divisor is a non-zero constant.
\<close>

fun bitLength :: "nat \<Rightarrow> nat" where
  "bitLength n = (if n = 0 then 0 else Suc (bitLength (n div 2)))"

declare bitLength.simps [simp del]

definition binade :: "real \<Rightarrow> int" where
  "binade v =
     (if 1 \<le> v then int (bitLength (nat \<lfloor>v\<rfloor>)) - 1
      else - int (bitLength (nat (\<lceil>1 / v\<rceil> - 1))))"

definition roundHalfEven :: "real \<Rightarrow> int" where
  "roundHalfEven v =
     (let f = \<lfloor>v\<rfloor>
      in if v - real_of_int f < 1 / 2 then f
         else if 1 / 2 < v - real_of_int f then f + 1
         else if even f then f
         else f + 1)"

definition roundToDouble :: "real \<Rightarrow> real" where
  "roundToDouble v =
     (if v = 0 then 0
      else (let ulp = 2 powi (binade \<bar>v\<bar> - 52)
            in sgn v * (real_of_int (roundHalfEven (\<bar>v\<bar> / ulp)) * ulp)))"

definition fadd :: "real \<Rightarrow> real \<Rightarrow> real" where
  "fadd a b = roundToDouble (a + b)"

definition fsub :: "real \<Rightarrow> real \<Rightarrow> real" where
  "fsub a b = roundToDouble (a - b)"

definition fmul :: "real \<Rightarrow> real \<Rightarrow> real" where
  "fmul a b = roundToDouble (a * b)"

definition fdiv :: "real \<Rightarrow> real \<Rightarrow> real" where
  "fdiv a b = roundToDouble (a / b)"

text \<open>\<open>Math.sqrt\<close> returns the correctly rounded square root.\<close>

definition fsqrt :: "real \<Rightarrow> real" where
  "fsqrt v = roundToDouble (sqrt v)"

subsection \<open>Histogram and dominant colours\<close>

type_synonym color = "nat \<times> nat \<times> nat"

record HistEntry =
  color :: color
  count :: nat
  luminance :: real

type_synonym histogram = "((int \<times> int \<times> int) \<times> HistEntry) list"

text \<open>
  \<open>0.299 * r + 0.587 * g + 0.114 * b\<close>: each literal denotes the nearest double,
  and the two sums are taken from the left.
\<close>

definition getLuminance :: "nat \<Rightarrow> nat \<Rightarrow> nat \<Rightarrow> real" where
  "getLuminance r g b =
     fadd (fadd (fmul (roundToDouble 0.299) (real r)) (fmul (roundToDouble 0.587) (real g)))
          (fmul (roundToDouble 0.114) (real b))"

text \<open>
  \<open>Math.sqrt(Math.pow(c1[0] - c2[0], 2) + ...)\<close>, in the other revision
  \<open>Math.sqrt(dr * dr + ...)\<close>. The channels are integers below 256, for which
  \<open>Math.pow(d, 2)\<close> is the exact square, as the rounded product is.
\<close>

fun colorDistance :: "color \<Rightarrow> color \<Rightarrow> real" where
  "colorDistance (r1, g1, b1) (r2, g2, b2) =
     fsqrt (fadd (fadd (fmul (fsub (real r1) (real r2)) (fsub (real r1) (real r2)))
                       (fmul (fsub (real g1) (real g2)) (fsub (real g1) (real g2))))
                 (fmul (fsub (real b1) (real b2)) (fsub (real b1) (real b2))))"

declare colorDistance.simps [simp del]

text \<open>
  \<open>Math.round\<close> rounds to the nearest integer, halves upwards. The quotient
  \<open>r / bucketSize\<close> and the product with \<open>bucketSize\<close> are exact in binary64 for
  the bucket size 16 that the function uses.
\<close>

definition mathRound :: "real \<Rightarrow> int" where
  "mathRound v = \<lfloor>v + 1 / 2\<rfloor>"

definition colorToKey :: "nat \<Rightarrow> nat \<Rightarrow> nat \<Rightarrow> nat \<Rightarrow> int \<times> int \<times> int" where
  "colorToKey r g b bucketSize =
     (mathRound (real r / real bucketSize) * int bucketSize,
      mathRound (real g / real bucketSize) * int bucketSize,
      mathRound (real b / real bucketSize) * int bucketSize)"

text \<open>
  One histogram update: \<open>hist.get(key) || {color, count: 0, luminance}\<close>, then
  \<open>entry.count++\<close> and \<open>hist.set(key, entry)\<close>. An existing key keeps its place
  and its first colour; a new key goes to the end.
\<close>

fun histAdd :: "int \<times> int \<times> int \<Rightarrow> color \<Rightarrow> histogram \<Rightarrow> histogram" where
  "histAdd k c [] =
     [(k, \<lparr>color = c, count = 1,
           luminance = getLuminance (fst c) (fst (snd c)) (snd (snd c))\<rparr>)]"
| "histAdd k c ((k', e) # rest) =
     (if k' = k then (k', e\<lparr>count := count e + 1\<rparr>) # rest
      else (k', e) # histAdd k c rest)"

text \<open>
  The pixel loops step through the array four bytes at a time. An \<open>ImageData\<close>
  array always has a length divisible by four, so the last equation only ever meets the
  empty list.
\<close>

fun buildHist :: "byte list \<Rightarrow> histogram \<Rightarrow> histogram" where
  "buildHist (r # g # b # a # rest) hist =
     buildHist rest
       (if unat a < 128 then hist
        else histAdd (colorToKey (unat r) (unat g) (unat b) 16) (unat r, unat g, unat b) hist)"
| "buildHist rest hist = hist"

definition scanDominant :: "HistEntry list \<Rightarrow> HistEntry \<times> HistEntry" where
  "scanDominant entries =
     fold (\<lambda>entry (dominantLight, dominantDark).
             if luminance entry > 128
             then (if count entry > count dominantLight then (entry, dominantDark)
                   else (dominantLight, dominantDark))
             else (if count entry > count dominantDark then (dominantLight, entry)
                   else (dominantLight, dominantDark)))
          entries
          (\<lparr>color = (255, 255, 255), count = 0, luminance = 255\<rparr>,
           \<lparr>color = (0, 0, 0), count = 0, luminance = 0\<rparr>)"

text \<open>
  Step 2 with its fallback. \<open>Array.prototype.sort\<close> is stable, as \<open>sort_key\<close>
  is; the comparator \<open>b.count - a.count\<close> orders by falling count. Reading
  \<open>color1.luminance\<close> of an empty array would throw a \<open>TypeError\<close>. The result is
  the pair (dominantLight, dominantDark).
\<close>

definition dominantColors :: "HistEntry list \<Rightarrow> error + (HistEntry \<times> HistEntry)" where
  "dominantColors entries =
     (case scanDominant entries of
        (dominantLight, dominantDark) \<Rightarrow>
          if count dominantLight = 0 \<or> count dominantDark = 0
          then (case sort_key (\<lambda>e. - int (count e)) entries of
                  [] \<Rightarrow> Inl TypeError
                | color1 # others \<Rightarrow>
                    (let color2 =
                           (case others of
                              c # _ \<Rightarrow> c
                            | [] \<Rightarrow>
                                \<lparr>color = (if luminance color1 > 128 then (0, 0, 0)
                                          else (255, 255, 255)),
                                 count = 0,
                                 luminance = (if luminance color1 > 128 then 0 else 255)\<rparr>)
                     in if luminance color1 > luminance color2
                        then Inr (color1, color2)
                        else Inr (color2, color1)))
          else Inr (dominantLight, dominantDark))"

text \<open>
  Steps 1 and 2 together: \<open>None\<close> when the histogram has fewer than two buckets and
  the function returns a cleared image without choosing any colours.
\<close>

definition classifyColors :: "byte list \<Rightarrow> (error + (HistEntry \<times> HistEntry)) option" where
  "classifyColors d =
     (let hist = buildHist d []
      in if length hist < 2 then None else Some (dominantColors (map snd hist)))"

text \<open>Storing a number into a \<open>Uint8ClampedArray\<close>: clamp, round halves to even.\<close>

definition toUint8Clamp :: "real \<Rightarrow> byte" where
  "toUint8Clamp v =
     (if v \<le> 0 then 0
      else if 255 \<le> v then 255
      else (let f = \<lfloor>v\<rfloor>
            in if v - real_of_int f < 1 / 2 then word_of_int f
               else if 1 / 2 < v - real_of_int f then word_of_int (f + 1)
               else if even f then word_of_int f
               else word_of_int (f + 1)))"

text \<open>
  Step 3 for one pixel: the four bytes written to \<open>newData\<close>, which starts as zeros.
  The thresholds are \<open>transparentThreshold = 90\<close> and \<open>opaqueThreshold = 45\<close>.
\<close>

definition segmentPixel :: "color \<Rightarrow> color \<Rightarrow> byte \<Rightarrow> byte \<Rightarrow> byte \<Rightarrow> byte \<Rightarrow> byte list" where
  "segmentPixel signatureColor backgroundColor r g b a =
     (if unat a < 25 then [0, 0, 0, 0]
      else
        (let currentPixelColor = (unat r, unat g, unat b);
             distToSignature = colorDistance currentPixelColor signatureColor;
             distToBackground = colorDistance currentPixelColor backgroundColor
         in if distToBackground < distToSignature \<and> distToBackground < fmul 90 1.5
            then [0, 0, 0, 0]
            else
              (let newAlpha =
                     (if distToSignature \<le> 45 then real (unat a)
                      else if distToSignature < 90
                      then (let alphaFactor =
                                  fsub 1 (fdiv (fsub distToSignature 45) (fsub 90 45))
                            in fmul (real (unat a)) alphaFactor)
                      else 0)
               in if newAlpha > 10 then [r, g, b, toUint8Clamp newAlpha]
                  else [0, 0, 0, 0])))"

text \<open>
  The loop \<open>for (let i = 0; i < data.length; i += 4)\<close> over a zero-filled
  \<open>newData\<close>: each group of four bytes is replaced by what the loop body writes.
\<close>

fun perPixel :: "(byte \<Rightarrow> byte \<Rightarrow> byte \<Rightarrow> byte \<Rightarrow> byte list) \<Rightarrow> byte list \<Rightarrow> byte list" where
  "perPixel body (r # g # b # a # rest) = body r g b a @ perPixel body rest"
| "perPixel body rest = replicate (length rest) 0"

definition rebuild :: "color \<Rightarrow> color \<Rightarrow> byte list \<Rightarrow> byte list" where
  "rebuild signatureColor backgroundColor d =
     perPixel (segmentPixel signatureColor backgroundColor) d"

definition removeBackgroundAutomatically :: "ImageData \<Rightarrow> error + ImageData" where
  "removeBackgroundAutomatically imageData =
     (if img_width imageData = 0 \<or> img_height imageData = 0
      then Inr \<lparr>data = [], img_width = 0, img_height = 0\<rparr>
      else
        (case classifyColors (data imageData) of
           None \<Rightarrow>
             Inr \<lparr>data = replicate (length (data imageData)) 0,
                  img_width = img_width imageData, img_height = img_height imageData\<rparr>
         | Some (Inl e) \<Rightarrow> Inl e
         | Some (Inr (dominantLight, dominantDark)) \<Rightarrow>
             Inr \<lparr>data = rebuild (color dominantDark) (color dominantLight) (data imageData),
                  img_width = img_width imageData, img_height = img_height imageData\<rparr>))"

section \<open>Automatic background removal (seeded chroma key)\<close>

text \<open>
  The other form of \<open>_removeBackgroundAutomatically\<close> finds the ink colour by a
  spiral search from the centre and then keys every pixel against it alone, with
  \<open>colorThreshold = 90\<close>. Only its step 3 is modelled, for a given ink colour.
\<close>

definition chromaKeyPixel :: "color \<Rightarrow> byte \<Rightarrow> byte \<Rightarrow> byte \<Rightarrow> byte \<Rightarrow> byte list" where
  "chromaKeyPixel signatureInkColor r g b a =
     (if unat a < 100 then [0, 0, 0, 0]
      else
        (let currentPixelColor = (unat r, unat g, unat b);
             distToInk = colorDistance currentPixelColor signatureInkColor
         in if distToInk < 90
            then (let alphaFactor = max 0 (fsub 1 (fdiv distToInk 90))
                  in [r, g, b,
                      toUint8Clamp (fmul (real (unat a)) (fmul alphaFactor alphaFactor))])
            else [0, 0, 0, 0]))"

definition chromaKey :: "color \<Rightarrow> byte list \<Rightarrow> byte list" where
  "chromaKey signatureInkColor d = perPixel (chromaKeyPixel signatureInkColor) d"

section \<open>Predicates used in the statements\<close>

text \<open>The bounding box before any pixel has been seen.\<close>

definition initBox :: "ImageData \<Rightarrow> BBox" where
  "initBox img =
     \<lparr>minX = int (img_width img), minY = int (img_height img), maxX = -1, maxY = -1\<rparr>"

text \<open>
  \<open>boxOf img S bb\<close>: \<open>bb\<close> is what the scan holds after visiting the pixel
  coordinates in \<open>S\<close>: untouched while none of them is opaque, and afterwards a box
  that contains every opaque pixel of \<open>S\<close> and meets one on each side.
\<close>

definition boxOf :: "ImageData \<Rightarrow> (nat \<times> nat) set \<Rightarrow> BBox \<Rightarrow> bool" where
  "boxOf img S bb =
     (if \<exists>p\<in>S. opaqueAt img (fst p) (snd p)
      then (\<forall>p\<in>S. opaqueAt img (fst p) (snd p) \<longrightarrow>
              minX bb \<le> int (fst p) \<and> int (fst p) \<le> maxX bb
            \<and> minY bb \<le> int (snd p) \<and> int (snd p) \<le> maxY bb)
         \<and> (\<exists>p\<in>S. opaqueAt img (fst p) (snd p) \<and> int (fst p) = minX bb)
         \<and> (\<exists>p\<in>S. opaqueAt img (fst p) (snd p) \<and> int (fst p) = maxX bb)
         \<and> (\<exists>p\<in>S. opaqueAt img (fst p) (snd p) \<and> int (snd p) = minY bb)
         \<and> (\<exists>p\<in>S. opaqueAt img (fst p) (snd p) \<and> int (snd p) = maxY bb)
      else bb = initBox img)"

text \<open>The geometry invariant of the store: every instance has height = width / aspectRatio.\<close>

definition heightInv :: "AppState \<Rightarrow> bool" where
  "heightInv st =
     list_all (\<lambda>s. height s = width s / aspectRatio s) (placedSignatures st)"

text \<open>
  Every instance, the active mask and a resize in progress carry the same non-zero
  aspect ratio \<open>A\<close>. This holds in the initial state and after every event that does
  not replace the mask in the middle of a resize gesture.
\<close>

definition sharedAspect :: "real \<Rightarrow> AppState \<Rightarrow> bool" where
  "sharedAspect A st =
     (A \<noteq> 0
      \<and> list_all (\<lambda>s. aspectRatio s = A) (placedSignatures st)
      \<and> (case trimmedSignatureSize st of None \<Rightarrow> True | Some t \<Rightarrow> ts_aspectRatio t = A)
      \<and> (case resizingSignature st of
            None \<Rightarrow> True
          | Some r \<Rightarrow> aspectRatio (resize_signature r) = A))"

text \<open>
  An event is in step with the gestures when a mask replacement does not arrive while
  a resize is in progress and a resize starts on an instance of the store (the handle
  the user grabs belongs to a rendered instance).
\<close>

fun gestureOk :: "AppState \<Rightarrow> Event \<Rightarrow> bool" where
  "gestureOk st (MaskReplace env decoded) = (resizingSignature st = None)"
| "gestureOk st (ResizeStart p s) = (s \<in> set (placedSignatures st))"
| "gestureOk st ev = True"

fun serialized :: "AppState \<Rightarrow> Event list \<Rightarrow> bool" where
  "serialized st [] = True"
| "serialized st (ev # evs) = (gestureOk st ev \<and> serialized (step ev st) evs)"

section \<open>Concrete inputs\<close>

definition okEnv :: CanvasEnv where
  "okEnv = \<lparr>ctxAvailable = True, finalCtxAvailable = True\<rparr>"

text \<open>Two opaque black pixels side by side; one opaque pixel; one transparent pixel.\<close>

definition opaque2x1 :: ImageData where
  "opaque2x1 = \<lparr>data = [0, 0, 0, 255, 0, 0, 0, 255], img_width = 2, img_height = 1\<rparr>"

definition opaque1x1 :: ImageData where
  "opaque1x1 = \<lparr>data = [0, 0, 0, 255], img_width = 1, img_height = 1\<rparr>"

definition transparent1x1 :: ImageData where
  "transparent1x1 = \<lparr>data = [0, 0, 0, 0], img_width = 1, img_height = 1\<rparr>"

text \<open>A 3 by 2 image whose only opaque pixels are (1, 0) and (2, 1).\<close>

definition diagonal3x2 :: ImageData where
  "diagonal3x2 =
     \<lparr>data = [0, 0, 0, 0,   9, 9, 9, 255,   0, 0, 0, 0,
               0, 0, 0, 0,   0, 0, 0, 0,     7, 7, 7, 1],
      img_width = 3, img_height = 2\<rparr>"

text \<open>One white pixel.\<close>

definition white1x1 :: ImageData where
  "white1x1 = \<lparr>data = [255, 255, 255, 255], img_width = 1, img_height = 1\<rparr>"

text \<open>
  Two pixels of colour (7, 11, 105) and one of colour (18, 12, 71): two dark buckets
  whose luminances differ only in the last bits of the doubles.
\<close>

definition tieRow :: ImageData where
  "tieRow =
     \<lparr>data = [7, 11, 105, 255,  7, 11, 105, 255,  18, 12, 71, 255],
      img_width = 3, img_height = 1\<rparr>"

text \<open>Two black pixels, two of colour (40, 0, 0) and one of colour (30, 0, 0).\<close>

definition redRow :: ImageData where
  "redRow =
     \<lparr>data = [0, 0, 0, 255,  0, 0, 0, 255,  40, 0, 0, 255,  40, 0, 0, 255,
               30, 0, 0, 255],
      img_width = 5, img_height = 1\<rparr>"

text \<open>An opaque black pixel followed by a fully transparent grey one.\<close>

definition inkAndClear :: "byte list" where
  "inkAndClear = [0, 0, 0, 255, 9, 9, 9, 0]"

text \<open>
  Clicks on a canvas 800 wide; \<open>clickA\<close> and \<open>clickB\<close> fall in the same
  millisecond, \<open>clickC\<close> in the next.
\<close>

definition clickA :: ClickEvent where
  "clickA = \<lparr>targetInWrapper = False, clientX = 100, clientY = 100, rectLeft = 0,
             rectTop = 0, scrollLeft = 0, scrollTop = 0, offsetWidth = 800, now = 1000\<rparr>"

definition clickB :: ClickEvent where
  "clickB = \<lparr>targetInWrapper = False, clientX = 300, clientY = 200, rectLeft = 0,
             rectTop = 0, scrollLeft = 0, scrollTop = 0, offsetWidth = 800, now = 1000\<rparr>"

definition clickC :: ClickEvent where
  "clickC = \<lparr>targetInWrapper = False, clientX = 300, clientY = 200, rectLeft = 0,
             rectTop = 0, scrollLeft = 0, scrollTop = 0, offsetWidth = 800, now = 1001\<rparr>"

text \<open>
  The instances that \<open>clickA\<close>, \<open>clickB\<close> and \<open>clickC\<close> place when the mask is
  \<open>opaque2x1\<close>.
\<close>

definition sigA :: PlacedSignature where
  "sigA = \<lparr>sig_id = 1000, position = \<lparr>pos_x = 40, pos_y = 70\<rparr>, page = 1,
           width = 120, height = 60, aspectRatio = 2\<rparr>"

definition sigB :: PlacedSignature where
  "sigB = \<lparr>sig_id = 1000, position = \<lparr>pos_x = 240, pos_y = 170\<rparr>, page = 1,
           width = 120, height = 60, aspectRatio = 2\<rparr>"

definition sigC :: PlacedSignature where
  "sigC = \<lparr>sig_id = 1001, position = \<lparr>pos_x = 240, pos_y = 170\<rparr>, page = 1,
           width = 120, height = 60, aspectRatio = 2\<rparr>"

definition origin :: Position where
  "origin = \<lparr>pos_x = 0, pos_y = 0\<rparr>"

definition movedBy10 :: Position where
  "movedBy10 = \<lparr>pos_x = 10, pos_y = 5\<rparr>"

text \<open>
  The store after \<open>clickA\<close> and \<open>clickC\<close> (different milliseconds), and after
  \<open>clickA\<close> and \<open>clickB\<close> (the same millisecond), with \<open>opaque2x1\<close> as mask.
\<close>

definition twoInstances :: AppState where
  "twoInstances =
     \<lparr>signatureDataUrl = Some (PngUrl opaque2x1),
      trimmedSignatureSize = Some \<lparr>ts_width = 2, ts_height = 1, ts_aspectRatio = 2\<rparr>,
      placedSignatures = [sigA, sigC],
      isPlacingSignature = True, currentPage = 1, draggedSignature = None,
      resizingSignature = None, interactionOccurred = False\<rparr>"

definition collidedInstances :: AppState where
  "collidedInstances =
     \<lparr>signatureDataUrl = Some (PngUrl opaque2x1),
      trimmedSignatureSize = Some \<lparr>ts_width = 2, ts_height = 1, ts_aspectRatio = 2\<rparr>,
      placedSignatures = [sigA, sigB],
      isPlacingSignature = True, currentPage = 1, draggedSignature = None,
      resizingSignature = None, interactionOccurred = False\<rparr>"


section \<open>Export conversion\<close>

text \<open>
  C1. The export conversion divides the scaled render-pixel values by the render scale
  and flips the y axis: \<open>pointX = (x * scaleFactor) / c\<close>,
  \<open>pointWidth = (width * scaleFactor) / c\<close>, \<open>pointHeight = (height * scaleFactor) / c\<close>
  and \<open>pointY = H - (y * scaleFactor) / c - pointHeight\<close>, for every rectangle, scale
  factor, render scale \<open>c\<close> and page height \<open>H\<close>. At the component's own render scale
  1.5, scale factor 1 and page height 792 the rectangle (100, 50, 120, 40) becomes
  x = 66.67, width = 80, height = 26.67 (each within 0.01) and y = 732.
\<close>

theorem applyAndDownload_rect_formula:
  "draw_x (applyAndDownload_rect c sf H
      \<lparr>sig_id = i, position = \<lparr>pos_x = rx, pos_y = ry\<rparr>, page = p,
       width = rw, height = rh, aspectRatio = ar\<rparr>) = (rx * sf) / c
   \<and> draw_width (applyAndDownload_rect c sf H
      \<lparr>sig_id = i, position = \<lparr>pos_x = rx, pos_y = ry\<rparr>, page = p,
       width = rw, height = rh, aspectRatio = ar\<rparr>) = (rw * sf) / c
   \<and> draw_height (applyAndDownload_rect c sf H
      \<lparr>sig_id = i, position = \<lparr>pos_x = rx, pos_y = ry\<rparr>, page = p,
       width = rw, height = rh, aspectRatio = ar\<rparr>) = (rh * sf) / c
   \<and> draw_y (applyAndDownload_rect c sf H
      \<lparr>sig_id = i, position = \<lparr>pos_x = rx, pos_y = ry\<rparr>, page = p,
       width = rw, height = rh, aspectRatio = ar\<rparr>) = H - (ry * sf) / c - (rh * sf) / c
   \<and> \<bar>draw_x (applyAndDownload_rect pdfRenderScale 1 792
      \<lparr>sig_id = i, position = \<lparr>pos_x = 100, pos_y = 50\<rparr>, page = p,
       width = 120, height = 40, aspectRatio = 3\<rparr>) - 66.67\<bar> < 0.01
   \<and> draw_width (applyAndDownload_rect pdfRenderScale 1 792
      \<lparr>sig_id = i, position = \<lparr>pos_x = 100, pos_y = 50\<rparr>, page = p,
       width = 120, height = 40, aspectRatio = 3\<rparr>) = 80
   \<and> \<bar>draw_height (applyAndDownload_rect pdfRenderScale 1 792
      \<lparr>sig_id = i, position = \<lparr>pos_x = 100, pos_y = 50\<rparr>, page = p,
       width = 120, height = 40, aspectRatio = 3\<rparr>) - 26.67\<bar> < 0.01
   \<and> draw_y (applyAndDownload_rect pdfRenderScale 1 792
      \<lparr>sig_id = i, position = \<lparr>pos_x = 100, pos_y = 50\<rparr>, page = p,
       width = 120, height = 40, aspectRatio = 3\<rparr>) = 732"
  by (simp add: applyAndDownload_rect_def pdfRenderScale_def Let_def)

section \<open>The scan computes the bounding box\<close>

lemma boxOf_empty: "boxOf img {} (initBox img)"
  by (simp add: boxOf_def)

lemma boxOf_step:
  assumes "boxOf img S bb" and "x < img_width img" and "y < img_height img"
  shows "boxOf img (insert (x, y) S) (scanStep img y x bb)"
proof (cases "opaqueAt img x y")
  case False
  with assms(1) show ?thesis
    by (auto simp: boxOf_def scanStep_def)
next
  case True
  show ?thesis
  proof (cases "\<exists>p\<in>S. opaqueAt img (fst p) (snd p)")
    case False
    with assms True show ?thesis
      by (auto simp: boxOf_def scanStep_def initBox_def)
  next
    case some: True
    with assms(1) have
      cov: "\<forall>p\<in>S. opaqueAt img (fst p) (snd p) \<longrightarrow>
              minX bb \<le> int (fst p) \<and> int (fst p) \<le> maxX bb
            \<and> minY bb \<le> int (snd p) \<and> int (snd p) \<le> maxY bb"
      and e1: "\<exists>p\<in>S. opaqueAt img (fst p) (snd p) \<and> int (fst p) = minX bb"
      and e2: "\<exists>p\<in>S. opaqueAt img (fst p) (snd p) \<and> int (fst p) = maxX bb"
      and e3: "\<exists>p\<in>S. opaqueAt img (fst p) (snd p) \<and> int (snd p) = minY bb"
      and e4: "\<exists>p\<in>S. opaqueAt img (fst p) (snd p) \<and> int (snd p) = maxY bb"
      by (simp_all add: boxOf_def)
    let ?r = "scanStep img y x bb"
    have r: "minX ?r = min (minX bb) (int x)" "maxX ?r = max (maxX bb) (int x)"
            "minY ?r = min (minY bb) (int y)" "maxY ?r = max (maxY bb) (int y)"
      using True by (simp_all add: scanStep_def)
    have c: "\<forall>p\<in>insert (x, y) S. opaqueAt img (fst p) (snd p) \<longrightarrow>
              minX ?r \<le> int (fst p) \<and> int (fst p) \<le> maxX ?r
            \<and> minY ?r \<le> int (snd p) \<and> int (snd p) \<le> maxY ?r"
      using cov by (auto simp: r)
    have a1: "\<exists>p\<in>insert (x, y) S. opaqueAt img (fst p) (snd p) \<and> int (fst p) = minX ?r"
      using e1 True by (cases "minX bb \<le> int x") (auto simp: r min_def)
    have a2: "\<exists>p\<in>insert (x, y) S. opaqueAt img (fst p) (snd p) \<and> int (fst p) = maxX ?r"
      using e2 True by (cases "maxX bb \<le> int x") (auto simp: r max_def)
    have a3: "\<exists>p\<in>insert (x, y) S. opaqueAt img (fst p) (snd p) \<and> int (snd p) = minY ?r"
      using e3 True by (cases "minY bb \<le> int y") (auto simp: r min_def)
    have a4: "\<exists>p\<in>insert (x, y) S. opaqueAt img (fst p) (snd p) \<and> int (snd p) = maxY ?r"
      using e4 True by (cases "maxY bb \<le> int y") (auto simp: r max_def)
    have "\<exists>p\<in>insert (x, y) S. opaqueAt img (fst p) (snd p)"
      using True by auto
    then show ?thesis
      unfolding boxOf_def using c a1 a2 a3 a4 by presburger
  qed
qed

lemma boxOf_row:
  assumes "boxOf img S bb" and "y < img_height img" and "\<forall>x\<in>set xs. x < img_width img"
  shows "boxOf img (S \<union> (\<lambda>x. (x, y)) ` set xs) (fold (scanStep img y) xs bb)"
  using assms
proof (induction xs arbitrary: S bb)
  case Nil
  then show ?case by simp
next
  case (Cons x xs)
  have "boxOf img (insert (x, y) S) (scanStep img y x bb)"
    using Cons.prems by (simp add: boxOf_step)
  then have "boxOf img (insert (x, y) S \<union> (\<lambda>x. (x, y)) ` set xs)
               (fold (scanStep img y) xs (scanStep img y x bb))"
    using Cons.prems by (intro Cons.IH) simp_all
  then show ?case by simp
qed

lemma boxOf_rows:
  assumes "boxOf img S bb" and "\<forall>y\<in>set ys. y < img_height img"
      and "\<forall>x\<in>set xs. x < img_width img"
  shows "boxOf img (S \<union> set xs \<times> set ys) (fold (\<lambda>y. fold (scanStep img y) xs) ys bb)"
  using assms
proof (induction ys arbitrary: S bb)
  case Nil
  then show ?case by simp
next
  case (Cons y ys)
  have "boxOf img (S \<union> (\<lambda>x. (x, y)) ` set xs) (fold (scanStep img y) xs bb)"
    using Cons.prems by (intro boxOf_row) simp_all
  then have "boxOf img ((S \<union> (\<lambda>x. (x, y)) ` set xs) \<union> set xs \<times> set ys)
               (fold (\<lambda>y. fold (scanStep img y) xs) ys (fold (scanStep img y) xs bb))"
    using Cons.prems by (intro Cons.IH) simp_all
  moreover have "(S \<union> (\<lambda>x. (x, y)) ` set xs) \<union> set xs \<times> set ys = S \<union> set xs \<times> set (y # ys)"
    by auto
  ultimately show ?case by simp
qed

lemma boxOf_scanBounds:
  "boxOf img ({0..<img_width img} \<times> {0..<img_height img}) (scanBounds img)"
proof -
  have "boxOf img ({} \<union> set [0..<img_width img] \<times> set [0..<img_height img])
          (fold (\<lambda>y. fold (scanStep img y) [0..<img_width img]) [0..<img_height img] (initBox img))"
    by (intro boxOf_rows boxOf_empty) simp_all
  then show ?thesis
    by (simp add: scanBounds_def initBox_def)
qed


lemma scanBounds_cases:
  obtains (empty) "\<forall>x < img_width img. \<forall>y < img_height img. \<not> opaqueAt img x y"
                  "scanBounds img = initBox img"
  | (content) x1 y1 x2 y2 x3 y3 x4 y4 where
      "x1 < img_width img" "y1 < img_height img" "opaqueAt img x1 y1" "int x1 = minX (scanBounds img)"
      "x2 < img_width img" "y2 < img_height img" "opaqueAt img x2 y2" "int x2 = maxX (scanBounds img)"
      "x3 < img_width img" "y3 < img_height img" "opaqueAt img x3 y3" "int y3 = minY (scanBounds img)"
      "x4 < img_width img" "y4 < img_height img" "opaqueAt img x4 y4" "int y4 = maxY (scanBounds img)"
      "\<forall>x < img_width img. \<forall>y < img_height img. opaqueAt img x y \<longrightarrow>
          minX (scanBounds img) \<le> int x \<and> int x \<le> maxX (scanBounds img)
        \<and> minY (scanBounds img) \<le> int y \<and> int y \<le> maxY (scanBounds img)"
proof (cases "\<exists>p\<in>{0..<img_width img} \<times> {0..<img_height img}. opaqueAt img (fst p) (snd p)")
  case False
  then have "scanBounds img = initBox img"
    using boxOf_scanBounds [of img] by (simp add: boxOf_def)
  moreover have "\<forall>x < img_width img. \<forall>y < img_height img. \<not> opaqueAt img x y"
    using False by auto
  ultimately show ?thesis using empty by blast
next
  case True
  let ?S = "{0..<img_width img} \<times> {0..<img_height img}"
  let ?bb = "scanBounds img"
  from True boxOf_scanBounds [of img] have
      cov: "\<forall>p\<in>?S. opaqueAt img (fst p) (snd p) \<longrightarrow>
              minX ?bb \<le> int (fst p) \<and> int (fst p) \<le> maxX ?bb
            \<and> minY ?bb \<le> int (snd p) \<and> int (snd p) \<le> maxY ?bb"
      and e1: "\<exists>p\<in>?S. opaqueAt img (fst p) (snd p) \<and> int (fst p) = minX ?bb"
      and e2: "\<exists>p\<in>?S. opaqueAt img (fst p) (snd p) \<and> int (fst p) = maxX ?bb"
      and e3: "\<exists>p\<in>?S. opaqueAt img (fst p) (snd p) \<and> int (snd p) = minY ?bb"
      and e4: "\<exists>p\<in>?S. opaqueAt img (fst p) (snd p) \<and> int (snd p) = maxY ?bb"
    by (simp_all add: boxOf_def)
  from e1 obtain x1 y1 where p1: "x1 < img_width img" "y1 < img_height img"
      "opaqueAt img x1 y1" "int x1 = minX ?bb" by auto
  from e2 obtain x2 y2 where p2: "x2 < img_width img" "y2 < img_height img"
      "opaqueAt img x2 y2" "int x2 = maxX ?bb" by auto
  from e3 obtain x3 y3 where p3: "x3 < img_width img" "y3 < img_height img"
      "opaqueAt img x3 y3" "int y3 = minY ?bb" by auto
  from e4 obtain x4 y4 where p4: "x4 < img_width img" "y4 < img_height img"
      "opaqueAt img x4 y4" "int y4 = maxY ?bb" by auto
  have c: "\<forall>x < img_width img. \<forall>y < img_height img. opaqueAt img x y \<longrightarrow>
          minX ?bb \<le> int x \<and> int x \<le> maxX ?bb \<and> minY ?bb \<le> int y \<and> int y \<le> maxY ?bb"
  proof (intro allI impI)
    fix x y assume "x < img_width img" "y < img_height img" "opaqueAt img x y"
    then have "(x, y) \<in> ?S" "opaqueAt img (fst (x, y)) (snd (x, y))" by simp_all
    with cov have "minX ?bb \<le> int (fst (x, y)) \<and> int (fst (x, y)) \<le> maxX ?bb
            \<and> minY ?bb \<le> int (snd (x, y)) \<and> int (snd (x, y)) \<le> maxY ?bb" by blast
    then show "minX ?bb \<le> int x \<and> int x \<le> maxX ?bb \<and> minY ?bb \<le> int y \<and> int y \<le> maxY ?bb"
      by simp
  qed
  show ?thesis
    using content [OF p1 p2 p3 p4 c] .
qed

lemma processed_positive:
  assumes "processSignatureImage env decoded = Inr processed" and "p_width processed \<noteq> 0"
  shows "0 < p_width processed \<and> 0 < p_height processed"
proof -
  from assms(1) obtain img where dec: "decoded = Some img"
    by (cases decoded) (simp_all add: processSignatureImage_def)
  show ?thesis
  proof (cases img rule: scanBounds_cases)
    case empty
    then show ?thesis
      using assms dec
      by (auto simp: processSignatureImage_def initBox_def Let_def split: if_splits)
  next
    case (content x1 y1 x2 y2 x3 y3 x4 y4)
    have "minX (scanBounds img) \<le> maxX (scanBounds img)"
      using content(1-4) content(17) by force
    moreover have "minY (scanBounds img) \<le> maxY (scanBounds img)"
      using content(1-4) content(17) by force
    ultimately show ?thesis
      using assms dec
      by (auto simp: processSignatureImage_def Let_def split: if_splits)
  qed
qed

lemma finalize_Inr:
  assumes "processSignatureImage env decoded = Inr processed" and "p_width processed \<noteq> 0"
  shows "finalizeSignature env decoded st =
     Inr (st\<lparr>signatureDataUrl := Some (dataUrl processed),
              trimmedSignatureSize :=
                Some \<lparr>ts_width = p_width processed, ts_height = p_height processed,
                      ts_aspectRatio = real_of_int (p_width processed) / real_of_int (p_height processed)\<rparr>,
              isPlacingSignature := True,
              placedSignatures :=
                map (\<lambda>s. s\<lparr>aspectRatio := real_of_int (p_width processed) / real_of_int (p_height processed),
                            height := width s / (real_of_int (p_width processed) / real_of_int (p_height processed))\<rparr>)
                    (placedSignatures st)\<rparr>)"
  using assms by (simp add: finalizeSignature_def Let_def)

lemma finalize_cases:
  obtains (failed) e where "finalizeSignature env decoded st = Inl e"
  | (replaced) processed where "processSignatureImage env decoded = Inr processed"
      "p_width processed \<noteq> 0"
proof (cases "processSignatureImage env decoded")
  case (Inl e)
  then have "finalizeSignature env decoded st = Inl e"
    by (simp add: finalizeSignature_def)
  then show ?thesis by (rule failed)
next
  case (Inr processed)
  show ?thesis
  proof (cases "p_width processed = 0")
    case True
    with Inr have "finalizeSignature env decoded st = Inl CouldNotProcess"
      by (simp add: finalizeSignature_def)
    then show ?thesis by (rule failed)
  next
    case False
    with Inr show ?thesis by (rule replaced)
  qed
qed

lemma step_inv:
  assumes "heightInv st" and "sharedAspect A st" and "gestureOk st ev"
  shows "heightInv (step ev st) \<and> (\<exists>A'. sharedAspect A' (step ev st))"
proof (cases ev)
  case (PlaceClick c)
  then show ?thesis
    using assms
    by (auto simp: heightInv_def sharedAspect_def placeSignatureOnClick_def Let_def
             split: option.splits)
next
  case (PointerMove p)
  then show ?thesis
    using assms
    by (auto simp: heightInv_def sharedAspect_def onDrag_def Let_def list_all_iff
             split: option.splits)
next
  case (MaskReplace env decoded)
  show ?thesis
  proof (cases env decoded st rule: finalize_cases)
    case (failed e)
    then show ?thesis using assms MaskReplace by auto
  next
    case (replaced processed)
    let ?A = "real_of_int (p_width processed) / real_of_int (p_height processed)"
    have nz: "?A \<noteq> 0"
      using processed_positive [OF replaced] by simp
    have res: "resizingSignature st = None"
      using assms(3) MaskReplace by simp
    have "heightInv (step ev st)"
      by (simp add: MaskReplace finalize_Inr [OF replaced] heightInv_def list_all_iff)
    moreover have "sharedAspect ?A (step ev st)"
      using nz res
      by (simp add: MaskReplace finalize_Inr [OF replaced] sharedAspect_def list_all_iff)
    ultimately show ?thesis by blast
  qed
next
  case (DragStart p s)
  then show ?thesis
    using assms by (auto simp: heightInv_def sharedAspect_def dragStart_def)
next
  case (ResizeStart p s)
  then show ?thesis
    using assms by (auto simp: heightInv_def sharedAspect_def resizeStart_def list_all_iff)
next
  case EndInteraction
  then show ?thesis
    using assms by (auto simp: heightInv_def sharedAspect_def onEndInteraction_def)
next
  case InteractionTimeout
  then show ?thesis
    using assms by (auto simp: heightInv_def sharedAspect_def interactionTimeout_def)
next
  case (Delete i)
  then show ?thesis
    using assms by (auto simp: heightInv_def sharedAspect_def deleteSignature_def list_all_iff)
qed

lemma run_inv:
  assumes "heightInv st" and "sharedAspect A st" and "serialized st evs"
  shows "heightInv (run evs st) \<and> (\<exists>A'. sharedAspect A' (run evs st))"
  using assms
proof (induction evs arbitrary: st A)
  case Nil
  then show ?case by (auto simp: run_def)
next
  case (Cons ev evs)
  from Cons.prems have "heightInv (step ev st) \<and> (\<exists>A'. sharedAspect A' (step ev st))"
    by (intro step_inv) simp_all
  then obtain A' where "heightInv (step ev st)" "sharedAspect A' (step ev st)" by blast
  moreover have "serialized (step ev st) evs" using Cons.prems by simp
  ultimately have "heightInv (run evs (step ev st)) \<and> (\<exists>A'. sharedAspect A' (run evs (step ev st)))"
    by (rule Cons.IH)
  then show ?case by (simp add: run_def)
qed

lemma length_cropRows:
  assumes "length (data img) = 4 * img_width img * img_height img"
      and "x0 + w \<le> img_width img" and "y0 + h \<le> img_height img"
  shows "length (cropRows img x0 y0 w h) = 4 * w * h"
proof -
  have row: "length (take (4 * w) (drop ((y * img_width img + x0) * 4) (data img))) = 4 * w"
    if "y \<in> set [y0..<y0 + h]" for y
  proof -
    from that assms(3) have "Suc y \<le> img_height img" by simp
    then have "Suc y * img_width img \<le> img_height img * img_width img"
      by (rule mult_le_mono1)
    then have "y * img_width img + x0 + w \<le> img_width img * img_height img"
      using assms(2) by (simp add: mult.commute)
    then show ?thesis
      using assms(1) by simp
  qed
  have "length (cropRows img x0 y0 w h)
          = sum_list (map (\<lambda>y. length (take (4 * w)
                (drop ((y * img_width img + x0) * 4) (data img)))) [y0..<y0 + h])"
    unfolding cropRows_def length_concat map_map comp_def ..
  also have "\<dots> = sum_list (map (\<lambda>y. 4 * w) [y0..<y0 + h])"
    using row by (intro arg_cong [where f = sum_list] map_cong) auto
  also have "\<dots> = 4 * w * h"
    by (simp add: sum_list_triv)
  finally show ?thesis .
qed

section \<open>Bounding-box trim\<close>

text \<open>
  C3. When the image has at least one pixel with alpha above 0 (and both canvas contexts
  are available), the scan returns the box [minX..maxX] x [minY..maxY] of those pixels:
  every such pixel lies inside it, each of the four sides x = minX, x = maxX, y = minY,
  y = maxY holds a pixel with alpha above 0, and the box lies inside the image. The
  resolved result has width maxX - minX + 1 and height maxY - minY + 1, its canvas has
  exactly these dimensions (and four bytes per pixel of them when the source array is
  well formed), and \<open>finalizeSignature\<close> stores the aspect ratio computed from the
  trimmed width and height.
\<close>

theorem processSignatureImage_bounding_box:
  assumes "x0 < img_width img" and "y0 < img_height img" and "opaqueAt img x0 y0"
      and "ctxAvailable env" and "finalCtxAvailable env"
  shows "let bb = scanBounds img;
             trimmedWidth = maxX bb - minX bb + 1;
             trimmedHeight = maxY bb - minY bb + 1
         in (\<forall>x y. x < img_width img \<and> y < img_height img \<and> opaqueAt img x y \<longrightarrow>
               minX bb \<le> int x \<and> int x \<le> maxX bb \<and> minY bb \<le> int y \<and> int y \<le> maxY bb)
          \<and> (\<exists>y. y < img_height img \<and> opaqueAt img (nat (minX bb)) y)
          \<and> (\<exists>y. y < img_height img \<and> opaqueAt img (nat (maxX bb)) y)
          \<and> (\<exists>x. x < img_width img \<and> opaqueAt img x (nat (minY bb)))
          \<and> (\<exists>x. x < img_width img \<and> opaqueAt img x (nat (maxY bb)))
          \<and> 0 \<le> minX bb \<and> minX bb \<le> maxX bb \<and> maxX bb < int (img_width img)
          \<and> 0 \<le> minY bb \<and> minY bb \<le> maxY bb \<and> maxY bb < int (img_height img)
          \<and> processSignatureImage env (Some img)
              = Inr \<lparr>dataUrl =
                       PngUrl \<lparr>data = cropRows img (nat (minX bb)) (nat (minY bb))
                                        (nat trimmedWidth) (nat trimmedHeight),
                               img_width = nat trimmedWidth, img_height = nat trimmedHeight\<rparr>,
                     p_width = trimmedWidth, p_height = trimmedHeight\<rparr>
          \<and> (\<exists>st'. finalizeSignature env (Some img) st = Inr st'
                \<and> trimmedSignatureSize st'
                    = Some \<lparr>ts_width = trimmedWidth, ts_height = trimmedHeight,
                            ts_aspectRatio = real_of_int trimmedWidth / real_of_int trimmedHeight\<rparr>)
          \<and> (length (data img) = 4 * img_width img * img_height img \<longrightarrow>
                length (cropRows img (nat (minX bb)) (nat (minY bb))
                          (nat trimmedWidth) (nat trimmedHeight))
                  = 4 * nat trimmedWidth * nat trimmedHeight)"
proof (cases img rule: scanBounds_cases)
  case empty
  with assms(1-3) show ?thesis by blast
next
  case (content x1 y1 x2 y2 x3 y3 x4 y4)
  let ?bb = "scanBounds img"
  let ?tw = "maxX ?bb - minX ?bb + 1"
  let ?th = "maxY ?bb - minY ?bb + 1"
  note cov = content(17)
  have e1: "\<exists>y. y < img_height img \<and> opaqueAt img (nat (minX ?bb)) y"
    using content(2,3) content(4) [symmetric] by auto
  have e2: "\<exists>y. y < img_height img \<and> opaqueAt img (nat (maxX ?bb)) y"
    using content(6,7) content(8) [symmetric] by auto
  have e3: "\<exists>x. x < img_width img \<and> opaqueAt img x (nat (minY ?bb))"
    using content(9,11) content(12) [symmetric] by auto
  have e4: "\<exists>x. x < img_width img \<and> opaqueAt img x (nat (maxY ?bb))"
    using content(13,15) content(16) [symmetric] by auto
  have bx: "0 \<le> minX ?bb \<and> minX ?bb \<le> maxX ?bb \<and> maxX ?bb < int (img_width img)"
    using content(1-8) cov by (metis of_nat_0_le_iff of_nat_less_iff)
  have by': "0 \<le> minY ?bb \<and> minY ?bb \<le> maxY ?bb \<and> maxY ?bb < int (img_height img)"
    using content(9-16) cov by (metis of_nat_0_le_iff of_nat_less_iff)
  have ne: "maxX ?bb \<noteq> -1" using bx by linarith
  have pr: "processSignatureImage env (Some img)
              = Inr \<lparr>dataUrl =
                       PngUrl \<lparr>data = cropRows img (nat (minX ?bb)) (nat (minY ?bb))
                                        (nat ?tw) (nat ?th),
                               img_width = nat ?tw, img_height = nat ?th\<rparr>,
                     p_width = ?tw, p_height = ?th\<rparr>"
    using assms(4,5) ne by (simp add: processSignatureImage_def Let_def)
  have "?tw \<noteq> 0" using bx by linarith
  then have fin: "\<exists>st'. finalizeSignature env (Some img) st = Inr st'
                \<and> trimmedSignatureSize st'
                    = Some \<lparr>ts_width = ?tw, ts_height = ?th,
                            ts_aspectRatio = real_of_int ?tw / real_of_int ?th\<rparr>"
    by (simp add: finalizeSignature_def pr Let_def)
  have len: "length (data img) = 4 * img_width img * img_height img \<longrightarrow>
                length (cropRows img (nat (minX ?bb)) (nat (minY ?bb)) (nat ?tw) (nat ?th))
                  = 4 * nat ?tw * nat ?th"
  proof
    assume wf: "length (data img) = 4 * img_width img * img_height img"
    have "nat (minX ?bb) + nat ?tw \<le> img_width img" using bx by linarith
    moreover have "nat (minY ?bb) + nat ?th \<le> img_height img" using by' by linarith
    ultimately show "length (cropRows img (nat (minX ?bb)) (nat (minY ?bb)) (nat ?tw) (nat ?th))
                  = 4 * nat ?tw * nat ?th"
      using wf by (rule length_cropRows [rotated])
  qed
  show ?thesis
    unfolding Let_def using cov e1 e2 e3 e4 bx by' pr fin len by blast
qed

theorem processSignatureImage_bounding_box_witness:
  "1 < img_width diagonal3x2 \<and> 0 < img_height diagonal3x2 \<and> opaqueAt diagonal3x2 1 0
   \<and> ctxAvailable okEnv \<and> finalCtxAvailable okEnv
   \<and> scanBounds diagonal3x2 = \<lparr>minX = 1, minY = 0, maxX = 2, maxY = 1\<rparr>
   \<and> processSignatureImage okEnv (Some diagonal3x2)
       = Inr \<lparr>dataUrl = PngUrl \<lparr>data = [9, 9, 9, 255, 0, 0, 0, 0, 0, 0, 0, 0, 7, 7, 7, 1],
                                img_width = 2, img_height = 2\<rparr>,
              p_width = 2, p_height = 2\<rparr>
   \<and> opaqueAt diagonal3x2 2 1"
proof -
  have h1: "1 < img_width diagonal3x2" by (simp add: diagonal3x2_def)
  have h2: "0 < img_height diagonal3x2" by (simp add: diagonal3x2_def)
  have h3: "opaqueAt diagonal3x2 1 0" by code_simp
  have h4: "ctxAvailable okEnv" and h5: "finalCtxAvailable okEnv" by (simp_all add: okEnv_def)
  have sb: "scanBounds diagonal3x2 = \<lparr>minX = 1, minY = 0, maxX = 2, maxY = 1\<rparr>" by code_simp
  have cr: "cropRows diagonal3x2 (Suc 0) 0 2 2 = [9, 9, 9, 255, 0, 0, 0, 0, 0, 0, 0, 0, 7, 7, 7, 1]"
    by code_simp
  have o: "opaqueAt diagonal3x2 2 1" by code_simp
  have "processSignatureImage okEnv (Some diagonal3x2)
       = Inr \<lparr>dataUrl = PngUrl \<lparr>data = [9, 9, 9, 255, 0, 0, 0, 0, 0, 0, 0, 0, 7, 7, 7, 1],
                                img_width = 2, img_height = 2\<rparr>,
              p_width = 2, p_height = 2\<rparr>"
    using processSignatureImage_bounding_box [OF h1 h2 h3 h4 h5, of initialState]
    by (simp add: Let_def sb cr)
  then show ?thesis using h1 h2 h3 h4 h5 sb o by simp
qed

section \<open>Fully transparent input\<close>

text \<open>
  C4 (as amended). For an image in which no pixel has alpha above 0,
  \<open>processSignatureImage\<close> resolves (it does not reject) with the empty result: an
  empty data URL, width 0 and height 0. No image with a visible pixel resolves to a
  result of width 0, so the empty result can be told apart. The caller
  \<open>finalizeSignature\<close> turns it into an error and the component's state is left
  unchanged.
\<close>

theorem processSignatureImage_transparent:
  assumes "\<forall>x y. x < img_width img \<and> y < img_height img \<longrightarrow> \<not> opaqueAt img x y"
      and "ctxAvailable env"
  shows "processSignatureImage env (Some img)
           = Inr \<lparr>dataUrl = EmptyUrl, p_width = 0, p_height = 0\<rparr>
       \<and> finalizeSignature env (Some img) st = Inl CouldNotProcess
       \<and> step (MaskReplace env (Some img)) st = st
       \<and> (\<forall>env' img' x y p. x < img_width img' \<and> y < img_height img' \<and> opaqueAt img' x y
             \<and> processSignatureImage env' (Some img') = Inr p \<longrightarrow> 0 < p_width p)"
proof -
  have sb: "scanBounds img = initBox img"
    using assms(1) by (cases img rule: scanBounds_cases) auto
  have pr: "processSignatureImage env (Some img)
           = Inr \<lparr>dataUrl = EmptyUrl, p_width = 0, p_height = 0\<rparr>"
    using assms(2) by (simp add: processSignatureImage_def sb initBox_def)
  have fin: "finalizeSignature env (Some img) st = Inl CouldNotProcess"
    by (simp add: finalizeSignature_def pr)
  have other: "0 < p_width p"
    if "x < img_width img'" "y < img_height img'" "opaqueAt img' x y"
       "processSignatureImage env' (Some img') = Inr p" for env' img' x y p
  proof (cases img' rule: scanBounds_cases)
    case empty
    with that show ?thesis by blast
  next
    case (content x1 y1 x2 y2 x3 y3 x4 y4)
    have "0 \<le> minX (scanBounds img') \<and> minX (scanBounds img') \<le> maxX (scanBounds img')"
      using content(1-4) content(17) by (metis of_nat_0_le_iff)
    then show ?thesis
      using that(4) by (auto simp: processSignatureImage_def Let_def split: if_splits)
  qed
  show ?thesis
    using pr fin other by simp blast
qed

text \<open>The one-pixel transparent image, with two instances already placed.\<close>

theorem processSignatureImage_transparent_witness:
  "\<not> opaqueAt transparent1x1 0 0 \<and> ctxAvailable okEnv
   \<and> processSignatureImage okEnv (Some transparent1x1)
       = Inr \<lparr>dataUrl = EmptyUrl, p_width = 0, p_height = 0\<rparr>
   \<and> finalizeSignature okEnv (Some transparent1x1) twoInstances = Inl CouldNotProcess
   \<and> step (MaskReplace okEnv (Some transparent1x1)) twoInstances = twoInstances"
proof -
  have o: "\<not> opaqueAt transparent1x1 0 0" by code_simp
  have h1: "\<forall>x y. x < img_width transparent1x1 \<and> y < img_height transparent1x1
              \<longrightarrow> \<not> opaqueAt transparent1x1 x y"
    using o by (simp add: transparent1x1_def)
  have h2: "ctxAvailable okEnv" by (simp add: okEnv_def)
  show ?thesis
    using processSignatureImage_transparent [OF h1 h2, of twoInstances] o h2 by simp
qed

text \<open>
  The claim as first stated fails here: on the transparent pixel the trim operation
  resolves with a result of width 0 and height 0 instead of rejecting.
\<close>

theorem processSignatureImage_resolves_empty_result:
  "processSignatureImage okEnv (Some transparent1x1)
     = Inr \<lparr>dataUrl = EmptyUrl, p_width = 0, p_height = 0\<rparr>"
  by code_simp

section \<open>Mask replacement\<close>

text \<open>
  C6. A mask replacement that succeeds, with trimmed width \<open>w\<close> and height \<open>h\<close> and
  so the new aspect ratio \<open>A = w / h\<close>, keeps the number and order of the instances
  and for each of them sets aspectRatio to \<open>A\<close> and height to width / \<open>A\<close>, leaving
  id, page, position and width as they were.
\<close>

theorem finalizeSignature_rewrites_instances:
  assumes "processSignatureImage env decoded = Inr processed" and "p_width processed \<noteq> 0"
  shows "\<exists>st'. finalizeSignature env decoded st = Inr st'
     \<and> length (placedSignatures st') = length (placedSignatures st)
     \<and> (\<forall>k < length (placedSignatures st).
          aspectRatio (placedSignatures st' ! k)
            = real_of_int (p_width processed) / real_of_int (p_height processed)
        \<and> height (placedSignatures st' ! k)
            = width (placedSignatures st ! k)
              / (real_of_int (p_width processed) / real_of_int (p_height processed))
        \<and> sig_id (placedSignatures st' ! k) = sig_id (placedSignatures st ! k)
        \<and> page (placedSignatures st' ! k) = page (placedSignatures st ! k)
        \<and> position (placedSignatures st' ! k) = position (placedSignatures st ! k)
        \<and> width (placedSignatures st' ! k) = width (placedSignatures st ! k))"
  by (simp add: finalize_Inr [OF assms])

text \<open>Replacing the 2:1 mask of \<open>twoInstances\<close> by a 1:1 mask.\<close>

theorem finalizeSignature_rewrites_instances_witness:
  "processSignatureImage okEnv (Some opaque1x1)
     = Inr \<lparr>dataUrl = PngUrl opaque1x1, p_width = 1, p_height = 1\<rparr>
   \<and> (\<exists>st'. finalizeSignature okEnv (Some opaque1x1) twoInstances = Inr st'
         \<and> length (placedSignatures st') = 2
         \<and> aspectRatio (placedSignatures st' ! 0) = 1
         \<and> height (placedSignatures st' ! 0) = 120
         \<and> sig_id (placedSignatures st' ! 0) = 1000
         \<and> position (placedSignatures st' ! 0) = \<lparr>pos_x = 40, pos_y = 70\<rparr>
         \<and> width (placedSignatures st' ! 0) = 120
         \<and> height (placedSignatures st' ! 1) = 120
         \<and> sig_id (placedSignatures st' ! 1) = 1001)"
proof -
  have p: "processSignatureImage okEnv (Some opaque1x1)
     = Inr \<lparr>dataUrl = PngUrl opaque1x1, p_width = 1, p_height = 1\<rparr>"
    by code_simp
  have nz: "p_width \<lparr>dataUrl = PngUrl opaque1x1, p_width = 1, p_height = 1\<rparr> \<noteq> 0"
    by simp
  have len: "length (placedSignatures twoInstances) = 2"
    by (simp add: twoInstances_def)
  from finalizeSignature_rewrites_instances [OF p nz, of twoInstances]
  obtain st' where fin: "finalizeSignature okEnv (Some opaque1x1) twoInstances = Inr st'"
    and l: "length (placedSignatures st') = length (placedSignatures twoInstances)"
    and all: "\<forall>k < length (placedSignatures twoInstances).
          aspectRatio (placedSignatures st' ! k) = real_of_int 1 / real_of_int 1
        \<and> height (placedSignatures st' ! k)
            = width (placedSignatures twoInstances ! k) / (real_of_int 1 / real_of_int 1)
        \<and> sig_id (placedSignatures st' ! k) = sig_id (placedSignatures twoInstances ! k)
        \<and> page (placedSignatures st' ! k) = page (placedSignatures twoInstances ! k)
        \<and> position (placedSignatures st' ! k) = position (placedSignatures twoInstances ! k)
        \<and> width (placedSignatures st' ! k) = width (placedSignatures twoInstances ! k)"
    by auto
  from all len have k0: "aspectRatio (placedSignatures st' ! 0) = 1"
        "height (placedSignatures st' ! 0) = 120"
        "sig_id (placedSignatures st' ! 0) = 1000"
        "position (placedSignatures st' ! 0) = \<lparr>pos_x = 40, pos_y = 70\<rparr>"
        "width (placedSignatures st' ! 0) = 120"
    by (simp_all add: twoInstances_def sigA_def)
  from all len have k1: "height (placedSignatures st' ! 1) = 120"
        "sig_id (placedSignatures st' ! 1) = 1001"
    by (simp_all add: twoInstances_def sigC_def)
  show ?thesis
    using p fin l len k0 k1 by simp
qed

section \<open>Resize\<close>




section \<open>Drag\<close>

text \<open>
  \<open>dragStart\<close> captures the instance, a copy \<open>p0\<close> of its position and the pointer
  position \<open>e0\<close>. On a pointer move to \<open>e\<close> with a drag in progress, the store keeps
  its length and order; every instance whose id equals the captured id gets the
  position \<open>p0 + (e - e0)\<close> and keeps its id, page, width, height and aspectRatio;
  every instance with another id is unchanged. So in a store with pairwise distinct
  ids the drag changes the dragged instance alone.
\<close>

lemma onDrag_drag_frame:
  assumes "draggedSignature st = Some d"
  shows "length (placedSignatures (onDrag e st)) = length (placedSignatures st)
     \<and> (\<forall>k < length (placedSignatures st).
          (sig_id (placedSignatures st ! k) = sig_id (drag_signature d) \<longrightarrow>
             position (placedSignatures (onDrag e st) ! k)
               = \<lparr>pos_x = pos_x (startPos d) + (pos_x e - pos_x (drag_eventStartPos d)),
                  pos_y = pos_y (startPos d) + (pos_y e - pos_y (drag_eventStartPos d))\<rparr>
           \<and> sig_id (placedSignatures (onDrag e st) ! k) = sig_id (placedSignatures st ! k)
           \<and> page (placedSignatures (onDrag e st) ! k) = page (placedSignatures st ! k)
           \<and> width (placedSignatures (onDrag e st) ! k) = width (placedSignatures st ! k)
           \<and> height (placedSignatures (onDrag e st) ! k) = height (placedSignatures st ! k)
           \<and> aspectRatio (placedSignatures (onDrag e st) ! k) = aspectRatio (placedSignatures st ! k))
        \<and> (sig_id (placedSignatures st ! k) \<noteq> sig_id (drag_signature d) \<longrightarrow>
             placedSignatures (onDrag e st) ! k = placedSignatures st ! k))
     \<and> (distinct (map sig_id (placedSignatures st)) \<longrightarrow>
          (\<forall>j k. j < length (placedSignatures st) \<and> k < length (placedSignatures st)
                 \<and> sig_id (placedSignatures st ! j) = sig_id (drag_signature d) \<and> k \<noteq> j \<longrightarrow>
                 placedSignatures (onDrag e st) ! k = placedSignatures st ! k))
     \<and> draggedSignature (dragStart e0 s st0)
         = Some \<lparr>drag_signature = s, startPos = position s, drag_eventStartPos = e0\<rparr>
     \<and> placedSignatures (dragStart e0 s st0) = placedSignatures st0"
proof -
  have frame: "\<And>k. k < length (placedSignatures st) \<Longrightarrow>
      sig_id (placedSignatures st ! k) \<noteq> sig_id (drag_signature d) \<Longrightarrow>
      placedSignatures (onDrag e st) ! k = placedSignatures st ! k"
    using assms by (simp add: onDrag_def Let_def)
  have "\<And>j k. distinct (map sig_id (placedSignatures st)) \<Longrightarrow> j < length (placedSignatures st)
       \<Longrightarrow> k < length (placedSignatures st) \<Longrightarrow> k \<noteq> j
       \<Longrightarrow> sig_id (placedSignatures st ! j) = sig_id (drag_signature d)
       \<Longrightarrow> sig_id (placedSignatures st ! k) \<noteq> sig_id (drag_signature d)"
    by (metis distinct_conv_nth length_map nth_map)
  then have others: "distinct (map sig_id (placedSignatures st)) \<longrightarrow>
          (\<forall>j k. j < length (placedSignatures st) \<and> k < length (placedSignatures st)
                 \<and> sig_id (placedSignatures st ! j) = sig_id (drag_signature d) \<and> k \<noteq> j \<longrightarrow>
                 placedSignatures (onDrag e st) ! k = placedSignatures st ! k)"
    using frame by blast
  show ?thesis
    using assms others by (simp add: onDrag_def Let_def dragStart_def)
qed

text \<open>
  C10. A drag update is to change only the position of the dragged instance and to
  leave every other instance as it is. The code selects the instance by its id, and
  the ids, being the millisecond of the click, can repeat (see C9). In the store that
  two clicks in the same millisecond produce, dragging the first instance also moves
  the second one, which was not dragged.
\<close>

theorem onDrag_moves_instances_sharing_the_id:
  "run [MaskReplace okEnv (Some opaque2x1), PlaceClick clickA, PlaceClick clickB] initialState
     = collidedInstances
   \<and> placedSignatures collidedInstances ! 0 = sigA
   \<and> placedSignatures collidedInstances ! 1 = sigB
   \<and> placedSignatures (run [DragStart origin sigA, PointerMove movedBy10] collidedInstances) ! 1
       \<noteq> placedSignatures collidedInstances ! 1"
  by code_simp

section \<open>The height invariant along event traces\<close>

text \<open>
  C2 (as amended). Start in a state where every instance has height = width /
  aspectRatio and where the instances, the active mask and any resize in progress share
  one non-zero aspect ratio (the initial state is such a state). Then after every
  sequence of placement clicks, pointer moves (drag or resize), mask replacements,
  gesture starts and ends and deletions, in which no mask replacement arrives while a
  resize is in progress and every resize starts on an instance of the store, every
  instance of the resulting store has height = width / aspectRatio.
\<close>

theorem serialized_run_keeps_heights:
  assumes "heightInv st" and "sharedAspect A st" and "serialized st evs"
  shows "heightInv (run evs st)"
  using run_inv [OF assms] by blast

text \<open>A trace from the initial state with a resize, a second mask and a drag.\<close>

theorem serialized_run_keeps_heights_witness:
  "heightInv initialState \<and> sharedAspect 1 initialState
   \<and> serialized initialState
        [MaskReplace okEnv (Some opaque2x1), PlaceClick clickA, ResizeStart origin sigA,
         PointerMove movedBy10, EndInteraction, MaskReplace okEnv (Some opaque1x1),
         DragStart origin sigA, PointerMove movedBy10]
   \<and> heightInv (run
        [MaskReplace okEnv (Some opaque2x1), PlaceClick clickA, ResizeStart origin sigA,
         PointerMove movedBy10, EndInteraction, MaskReplace okEnv (Some opaque1x1),
         DragStart origin sigA, PointerMove movedBy10] initialState)
   \<and> placedSignatures (run
        [MaskReplace okEnv (Some opaque2x1), PlaceClick clickA, ResizeStart origin sigA,
         PointerMove movedBy10, EndInteraction, MaskReplace okEnv (Some opaque1x1),
         DragStart origin sigA, PointerMove movedBy10] initialState)
       = [\<lparr>sig_id = 1000, position = \<lparr>pos_x = 50, pos_y = 75\<rparr>, page = 1,
           width = 130, height = 130, aspectRatio = 1\<rparr>]"
proof -
  let ?evs = "[MaskReplace okEnv (Some opaque2x1), PlaceClick clickA, ResizeStart origin sigA,
         PointerMove movedBy10, EndInteraction, MaskReplace okEnv (Some opaque1x1),
         DragStart origin sigA, PointerMove movedBy10]"
  have h1: "heightInv initialState" by (simp add: heightInv_def initialState_def)
  have h2: "sharedAspect 1 initialState" by (simp add: sharedAspect_def initialState_def)
  have h3: "serialized initialState ?evs" by code_simp
  have v: "placedSignatures (run ?evs initialState)
       = [\<lparr>sig_id = 1000, position = \<lparr>pos_x = 50, pos_y = 75\<rparr>, page = 1,
           width = 130, height = 130, aspectRatio = 1\<rparr>]"
    by code_simp
  show ?thesis
    using serialized_run_keeps_heights [OF h1 h2 h3] h1 h2 h3 v by simp
qed

text \<open>
  The claim as first stated fails when the mask is replaced between the start of a
  resize and a pointer move of it: the resize branch divides by the aspect ratio it
  captured at the start (2), while the instance already carries the new one (1).
\<close>

theorem mask_replacement_during_resize_breaks_height:
  "run [MaskReplace okEnv (Some opaque2x1), PlaceClick clickA, ResizeStart origin sigA]
       initialState
     = twoInstances\<lparr>placedSignatures := [sigA], interactionOccurred := True,
         resizingSignature :=
           Some \<lparr>resize_signature = sigA,
                 startSize = \<lparr>start_width = 120, start_height = 60\<rparr>,
                 resize_eventStartPos = origin\<rparr>\<rparr>
   \<and> heightInv (run [MaskReplace okEnv (Some opaque2x1), PlaceClick clickA,
                     ResizeStart origin sigA] initialState)
   \<and> placedSignatures
        (run [MaskReplace okEnv (Some opaque1x1), PointerMove movedBy10]
           (run [MaskReplace okEnv (Some opaque2x1), PlaceClick clickA,
                 ResizeStart origin sigA] initialState))
       = [\<lparr>sig_id = 1000, position = \<lparr>pos_x = 40, pos_y = 70\<rparr>, page = 1,
           width = 130, height = 65, aspectRatio = 1\<rparr>]
   \<and> \<not> heightInv
        (run [MaskReplace okEnv (Some opaque1x1), PointerMove movedBy10]
           (run [MaskReplace okEnv (Some opaque2x1), PlaceClick clickA,
                 ResizeStart origin sigA] initialState))"
  by code_simp

section \<open>Instance ids\<close>

text \<open>
  C9. The id of a placed instance is to be unique in the store; \<open>deleteSignature\<close>
  and \<open>onDrag\<close> use it as the identity of an instance. The code takes the id from
  \<open>Date.now()\<close>, so two placement clicks in the same millisecond give both new
  instances the id 1000, and deleting by that id removes both.
\<close>

theorem same_millisecond_clicks_share_an_id:
  "run [MaskReplace okEnv (Some opaque2x1), PlaceClick clickA, PlaceClick clickB] initialState
     = collidedInstances
   \<and> map sig_id (placedSignatures collidedInstances) = [1000, 1000]
   \<and> \<not> distinct (map sig_id (placedSignatures
        (run [MaskReplace okEnv (Some opaque2x1), PlaceClick clickA, PlaceClick clickB]
           initialState)))
   \<and> placedSignatures (deleteSignature 1000 collidedInstances) = []"
  by code_simp

section \<open>Binary64 rounding\<close>

text \<open>
  The exponent that \<open>binade\<close> computes is the right one, a rounded value lies within
  half a unit in the last place of the exact one, and the model returns the doubles
  that the JavaScript expressions evaluate to.
\<close>

lemmas double_eval = roundToDouble_def binade_def roundHalfEven_def bitLength.simps Let_def
  fadd_def fsub_def fmul_def fdiv_def fsqrt_def

lemma bitLength_bounds:
  assumes "0 < n"
  shows "2 ^ (bitLength n - 1) \<le> n \<and> n < 2 ^ bitLength n"
  using assms
proof (induction n rule: bitLength.induct)
  case (1 n)
  show ?case
  proof (cases "n div 2 = 0")
    case True
    with "1.prems" have "n = 1" by (simp add: div_eq_0_iff) 
    then show ?thesis by (simp add: bitLength.simps)
  next
    case False
    then have pos: "0 < n div 2" by simp
    from "1.IH" [OF _ pos] "1.prems"
    have ih: "2 ^ (bitLength (n div 2) - 1) \<le> n div 2" "n div 2 < 2 ^ bitLength (n div 2)"
      by simp_all
    have bl: "bitLength n = Suc (bitLength (n div 2))"
      using "1.prems" by (subst bitLength.simps) simp
    have "0 < bitLength (n div 2)"
      using pos by (subst bitLength.simps) simp
    then obtain m where m: "bitLength (n div 2) = Suc m" by (cases "bitLength (n div 2)") auto
    from ih have "2 ^ m \<le> n div 2" "n div 2 < 2 ^ Suc m" by (simp_all add: m)
    then have "2 * 2 ^ m \<le> n" "n < 2 * 2 ^ Suc m" by linarith+
    then show ?thesis by (simp add: bl m)
  qed
qed

lemma binade_bounds:
  assumes "0 < v"
  shows "2 powi (binade v) \<le> v \<and> v < 2 powi (binade v + 1)"
proof (cases "1 \<le> v")
  case True
  let ?n = "nat \<lfloor>v\<rfloor>"
  have n: "0 < ?n" using True by simp
  from bitLength_bounds [OF n]
  have lo: "2 ^ (bitLength ?n - 1) \<le> ?n" and hi: "?n < 2 ^ bitLength ?n" by simp_all
  have bl: "0 < bitLength ?n" using n by (subst bitLength.simps) simp
  have b: "binade v = int (bitLength ?n - 1)"
    using True bl by (simp add: binade_def)
  have rn: "real ?n = real_of_int \<lfloor>v\<rfloor>" using True by simp
  have f1: "real_of_int \<lfloor>v\<rfloor> \<le> v" and f2: "v < real_of_int \<lfloor>v\<rfloor> + 1" by linarith+
  have "real (2 ^ (bitLength ?n - 1)) \<le> real ?n" using lo by (simp only: of_nat_le_iff)
  then have lo': "(2::real) ^ (bitLength ?n - 1) \<le> real ?n" by simp
  have "real (Suc ?n) \<le> real (2 ^ bitLength ?n)"
    using hi by (simp only: of_nat_le_iff Suc_le_eq)
  then have hi': "real ?n + 1 \<le> (2::real) ^ bitLength ?n" by simp
  have bounds: "(2::real) ^ (bitLength ?n - 1) \<le> v" "v < (2::real) ^ bitLength ?n"
    using lo' hi' f1 f2 unfolding rn by linarith+
  have e1: "(2::real) powi int (bitLength ?n - 1) = 2 ^ (bitLength ?n - 1)"
    by (rule power_int_of_nat)
  have "int (bitLength ?n - 1) + 1 = int (bitLength ?n)" using bl by simp
  then have e2: "(2::real) powi (int (bitLength ?n - 1) + 1) = 2 ^ bitLength ?n"
    by (simp only: power_int_of_nat)
  show ?thesis
    unfolding b e1 e2 using bounds by simp
next
  case False
  let ?c = "\<lceil>1 / v\<rceil>"
  let ?n = "nat (?c - 1)"
  have v1: "v < 1" using False by simp
  have y: "1 < 1 / v" using assms v1 by simp
  then have c2: "2 \<le> ?c" by linarith
  then have n: "0 < ?n" by simp
  from bitLength_bounds [OF n]
  have lo: "2 ^ (bitLength ?n - 1) \<le> ?n" and hi: "?n < 2 ^ bitLength ?n" by simp_all
  have bl: "0 < bitLength ?n" using n by (subst bitLength.simps) simp
  have b: "binade v = - int (bitLength ?n)"
    using False by (simp add: binade_def)
  have "0 \<le> ?c - 1" using c2 by linarith
  then have "real ?n = real_of_int (?c - 1)" by (rule of_nat_nat)
  then have rn: "real ?n = real_of_int ?c - 1" by (simp only: of_int_diff of_int_1)
  have g1: "real_of_int ?c - 1 < 1 / v" and g2: "1 / v \<le> real_of_int ?c" by linarith+
  have "real (2 ^ (bitLength ?n - 1)) \<le> real ?n" using lo by (simp only: of_nat_le_iff)
  then have lo': "(2::real) ^ (bitLength ?n - 1) \<le> real ?n" by simp
  have "real (Suc ?n) \<le> real (2 ^ bitLength ?n)"
    using hi by (simp only: of_nat_le_iff Suc_le_eq)
  then have hi': "real ?n + 1 \<le> (2::real) ^ bitLength ?n" by simp
  have up: "1 / v \<le> 2 ^ bitLength ?n" and dn: "2 ^ (bitLength ?n - 1) < 1 / v"
    using lo' hi' g1 g2 unfolding rn by linarith+
  from up assms have low: "1 / 2 ^ bitLength ?n \<le> v"
    by (simp add: field_simps)
  from dn assms have high: "v < 1 / 2 ^ (bitLength ?n - 1)"
    by (simp add: field_simps)
  have e1: "(2::real) powi (- int (bitLength ?n)) = 1 / 2 ^ bitLength ?n"
  proof -
    have "(2::real) powi (- int (bitLength ?n)) = inverse (2 powi int (bitLength ?n))"
      by (rule power_int_minus)
    also have "\<dots> = 1 / 2 ^ bitLength ?n" by (simp add: inverse_eq_divide)
    finally show ?thesis .
  qed
  obtain m where m: "bitLength ?n = Suc m"
    using bl by (cases "bitLength ?n") auto
  have e2: "(2::real) powi (- int (bitLength ?n) + 1) = 1 / 2 ^ (bitLength ?n - 1)"
  proof -
    have "- int (bitLength ?n) + 1 = - int m" by (simp add: m)
    then have "(2::real) powi (- int (bitLength ?n) + 1) = 2 powi (- int m)"
      by (simp only:)
    also have "\<dots> = inverse (2 powi int m)" by (rule power_int_minus)
    also have "\<dots> = 1 / 2 ^ m" by (simp add: inverse_eq_divide)
    finally show ?thesis by (simp add: m)
  qed
  show ?thesis
    unfolding b e1 e2 using low high by simp
qed

lemma roundHalfEven_near: "\<bar>real_of_int (roundHalfEven q) - q\<bar> \<le> 1 / 2"
proof -
  have "real_of_int \<lfloor>q\<rfloor> \<le> q" "q < real_of_int \<lfloor>q\<rfloor> + 1" by linarith+
  then show ?thesis
    by (auto simp: roundHalfEven_def Let_def)
qed

lemma roundToDouble_near:
  assumes "v \<noteq> 0"
  shows "\<bar>roundToDouble v - v\<bar> \<le> 2 powi (binade \<bar>v\<bar> - 52) / 2"
proof -
  let ?u = "(2::real) powi (binade \<bar>v\<bar> - 52)"
  let ?k = "real_of_int (roundHalfEven (\<bar>v\<bar> / ?u))"
  have u: "0 < ?u" by simp
  have r: "roundToDouble v = sgn v * (?k * ?u)"
    using assms by (simp add: roundToDouble_def Let_def)
  have v: "v = sgn v * (\<bar>v\<bar> / ?u * ?u)" using u by (simp add: sgn_mult_abs)
  have "roundToDouble v - v = sgn v * ((?k - \<bar>v\<bar> / ?u) * ?u)"
    by (subst (2) v) (simp add: r algebra_simps)
  then have "\<bar>roundToDouble v - v\<bar> = \<bar>?k - \<bar>v\<bar> / ?u\<bar> * ?u"
    using assms u by (simp add: abs_mult abs_sgn_eq)
  also have "\<dots> \<le> 1 / 2 * ?u"
    using roundHalfEven_near [of "\<bar>v\<bar> / ?u"] u by (intro mult_right_mono) simp_all
  finally show ?thesis by simp
qed

lemma double_constants:
  "roundToDouble 0.299 = 5386305154335113 / 18014398509481984"
  "roundToDouble 0.587 = 2643612981266481 / 4503599627370496"
  "roundToDouble 0.114 = 8214565720323785 / 72057594037927936"
  "fmul 90 1.5 = 135" "fmul 90 (3 / 2) = 135" "fsub 90 45 = 45"
  by (simp_all add: double_eval)

lemma roundToDouble_examples:
  "roundToDouble (2 ^ 53 + 1) = 2 ^ 53"
  "roundToDouble (2 ^ 53 + 3) = 2 ^ 53 + 4"
  "roundToDouble (1 - 1 / 2 ^ 54) = 1"
  "fadd (roundToDouble 0.1) (roundToDouble 0.2) = 1351079888211149 / 4503599627370496"
  "fdiv 1 3 = 6004799503160661 / 18014398509481984"
  "fmul (roundToDouble (- 7.3)) (roundToDouble 1.1) = - 282530507873321 / 35184372088832"
  by (simp_all add: double_eval)

lemma getLuminance_examples:
  "getLuminance 7 11 105 = 2887933261051331 / 140737488355328"
  "getLuminance 18 12 71 = 1443966630525665 / 70368744177664"
  "getLuminance 18 12 71 < getLuminance 7 11 105"
  "getLuminance 128 128 128 = 9007199254740991 / 70368744177664"
  "getLuminance 255 255 255 = 255"
  "getLuminance 0 0 0 = 0"
  "getLuminance 40 0 0 = 6732881442918891 / 562949953421312"
  "getLuminance 30 0 0 = 315603817636823 / 35184372088832"
  unfolding getLuminance_def double_constants by (simp_all add: double_eval)

section \<open>Colour classification\<close>


lemma histAdd_fst:
  "map fst (histAdd k c h) = (if k \<in> fst ` set h then map fst h else map fst h @ [k])"
  by (induction k c h rule: histAdd.induct) auto

lemma histAdd_keyed:
  assumes "\<forall>p\<in>set h. fst p = K (color (snd p))" and "k = K c"
  shows "\<forall>p\<in>set (histAdd k c h). fst p = K (color (snd p))"
  using assms by (induction k c h rule: histAdd.induct) auto

lemma buildHist_keyed:
  assumes "distinct (map fst h)"
      and "\<forall>p\<in>set h. fst p = colorToKey (fst (color (snd p))) (fst (snd (color (snd p))))
                                 (snd (snd (color (snd p)))) 16"
  shows "distinct (map fst (buildHist d h))
       \<and> (\<forall>p\<in>set (buildHist d h).
             fst p = colorToKey (fst (color (snd p))) (fst (snd (color (snd p))))
                                 (snd (snd (color (snd p)))) 16)"
  using assms
proof (induction d h rule: buildHist.induct)
  case (1 r g b a rest hist)
  show ?case
  proof (cases "unat a < 128")
    case True
    then show ?thesis using 1 by simp
  next
    case False
    let ?h = "histAdd (colorToKey (unat r) (unat g) (unat b) 16) (unat r, unat g, unat b) hist"
    have d: "distinct (map fst ?h)"
      using "1.prems"(1) by (simp add: histAdd_fst)
    have k: "\<forall>p\<in>set ?h. fst p = colorToKey (fst (color (snd p))) (fst (snd (color (snd p))))
                                 (snd (snd (color (snd p)))) 16"
      using "1.prems"(2)
      by (rule histAdd_keyed [where K = "\<lambda>c. colorToKey (fst c) (fst (snd c)) (snd (snd c)) 16"])
         simp
    from "1.IH" d k False show ?thesis by simp
  qed
qed simp_all

lemma entries_distinct_keys:
  "distinct (map (\<lambda>e. colorToKey (fst (color e)) (fst (snd (color e))) (snd (snd (color e))) 16)
                 (map snd (buildHist d [])))"
proof -
  from buildHist_keyed [of "[]" d]
  have d: "distinct (map fst (buildHist d []))"
    and k: "\<forall>p\<in>set (buildHist d []).
             fst p = colorToKey (fst (color (snd p))) (fst (snd (color (snd p))))
                                 (snd (snd (color (snd p)))) 16"
    by simp_all
  have "map (\<lambda>p. colorToKey (fst (color (snd p))) (fst (snd (color (snd p))))
                    (snd (snd (color (snd p)))) 16) (buildHist d [])
          = map fst (buildHist d [])"
    using k by (intro map_cong refl) simp
  then have "map (\<lambda>e. colorToKey (fst (color e)) (fst (snd (color e))) (snd (snd (color e))) 16)
                 (map snd (buildHist d [])) = map fst (buildHist d [])"
    by (simp only: map_map comp_def)
  then show ?thesis using d by (simp only:)
qed

lemma scanDominant_fold_no_light:
  assumes "\<forall>e\<in>set es. \<not> luminance e > 128"
  shows "fst (fold (\<lambda>entry (dominantLight, dominantDark).
             if luminance entry > 128
             then (if count entry > count dominantLight then (entry, dominantDark)
                   else (dominantLight, dominantDark))
             else (if count entry > count dominantDark then (dominantLight, entry)
                   else (dominantLight, dominantDark))) es acc) = fst acc"
  using assms by (induction es arbitrary: acc) (auto simp: case_prod_unfold)

lemma scanDominant_fold_no_dark:
  assumes "\<forall>e\<in>set es. luminance e > 128"
  shows "snd (fold (\<lambda>entry (dominantLight, dominantDark).
             if luminance entry > 128
             then (if count entry > count dominantLight then (entry, dominantDark)
                   else (dominantLight, dominantDark))
             else (if count entry > count dominantDark then (dominantLight, entry)
                   else (dominantLight, dominantDark))) es acc) = snd acc"
  using assms by (induction es arbitrary: acc) (auto simp: case_prod_unfold)

lemma one_side_empty_falls_back:
  assumes "(\<forall>e\<in>set es. \<not> luminance e > 128) \<or> (\<forall>e\<in>set es. luminance e > 128)"
  shows "count (fst (scanDominant es)) = 0 \<or> count (snd (scanDominant es)) = 0"
  using assms scanDominant_fold_no_light [of es] scanDominant_fold_no_dark [of es]
  unfolding scanDominant_def by auto

lemma sorted_two:
  assumes "2 \<le> length es"
  obtains c1 c2 rest where "sort_key f es = c1 # c2 # rest"
    "f c1 \<le> f c2" "\<forall>e\<in>set rest. f c2 \<le> f e"
proof -
  have "length (sort_key f es) = length es" by simp
  with assms obtain c1 c2 rest where s: "sort_key f es = c1 # c2 # rest"
    by (cases "sort_key f es"; cases "tl (sort_key f es)") auto
  have "sorted (map f (sort_key f es))" by simp
  then have "f c1 \<le> f c2" "\<forall>e\<in>set rest. f c2 \<le> f e"
    by (simp_all add: s)
  with s show ?thesis by (rule that)
qed

lemma dominantColors_not_error:
  assumes "es \<noteq> []"
  shows "\<exists>light dark. dominantColors es = Inr (light, dark)"
proof -
  have "sort_key (\<lambda>e. - int (count e)) es \<noteq> []"
    using assms by (metis length_sort length_0_conv)
  then obtain c1 others where "sort_key (\<lambda>e. - int (count e)) es = c1 # others"
    by (cases "sort_key (\<lambda>e. - int (count e)) es") auto
  then show ?thesis
    by (auto simp: dominantColors_def Let_def split: prod.splits list.splits)
qed

lemma dominantColors_fallback:
  assumes "2 \<le> length es"
      and "(\<forall>e\<in>set es. \<not> luminance e > 128) \<or> (\<forall>e\<in>set es. luminance e > 128)"
      and "sort_key (\<lambda>e. - int (count e)) es = c1 # c2 # rest"
  shows "dominantColors es
           = Inr (if luminance c1 > luminance c2 then (c1, c2) else (c2, c1))"
proof -
  obtain l d where sd: "scanDominant es = (l, d)" by (cases "scanDominant es")
  with one_side_empty_falls_back [OF assms(2)] have "count l = 0 \<or> count d = 0" by simp
  then show ?thesis
    by (auto simp: dominantColors_def sd assms(3) Let_def)
qed

text \<open>
  C5 (as amended). Steps 1 and 2 never throw, for any byte array. They yield a
  (background, ink) pair exactly when the histogram of the pixels with alpha at least
  128 has two or more buckets; with fewer buckets (no visible pixel, or a single-colour
  image such as pure black or pure white) no pair is chosen and, for an image of
  positive size, the result is a fully transparent image of the same size. With two or
  more buckets, when no bucket lies above the luminance midpoint 128 or none lies at or
  below it, the pair consists of the two most frequent buckets (two different buckets;
  every other bucket is no more frequent than the second): the background is the most
  frequent one when it is strictly lighter than the second, and the second otherwise;
  the ink is the other one, so the ink is never lighter than the background. The whole
  function always returns an image.
\<close>

theorem classifyColors_pair:
  "(\<forall>e. classifyColors d \<noteq> Some (Inl e))
   \<and> (classifyColors d = None \<longleftrightarrow> length (buildHist d []) < 2)
   \<and> (2 \<le> length (buildHist d []) \<longrightarrow>
        (\<exists>light dark. classifyColors d = Some (Inr (light, dark))))
   \<and> (2 \<le> length (buildHist d [])
        \<and> ((\<forall>e\<in>set (map snd (buildHist d [])). \<not> luminance e > 128)
           \<or> (\<forall>e\<in>set (map snd (buildHist d [])). luminance e > 128)) \<longrightarrow>
        (\<exists>c1 c2 rest.
            mset (c1 # c2 # rest) = mset (map snd (buildHist d []))
          \<and> count c2 \<le> count c1 \<and> (\<forall>e\<in>set rest. count e \<le> count c2)
          \<and> colorToKey (fst (color c1)) (fst (snd (color c1))) (snd (snd (color c1))) 16
              \<noteq> colorToKey (fst (color c2)) (fst (snd (color c2))) (snd (snd (color c2))) 16
          \<and> classifyColors d
              = Some (Inr (if luminance c1 > luminance c2 then (c1, c2) else (c2, c1)))
          \<and> (\<forall>light dark. classifyColors d = Some (Inr (light, dark))
                \<longrightarrow> luminance dark \<le> luminance light)))
   \<and> (0 < img_width img \<and> 0 < img_height img \<and> length (buildHist (data img) []) < 2 \<longrightarrow>
        removeBackgroundAutomatically img
          = Inr \<lparr>data = replicate (length (data img)) 0,
                 img_width = img_width img, img_height = img_height img\<rparr>)
   \<and> (\<exists>out. removeBackgroundAutomatically img = Inr out)"
proof -
  let ?es = "\<lambda>d. map snd (buildHist d [])"
  have pair: "\<exists>light dark. classifyColors d = Some (Inr (light, dark))"
    if "2 \<le> length (buildHist d [])" for d
  proof -
    from that have "?es d \<noteq> []" by auto
    from dominantColors_not_error [OF this] that show ?thesis
      by (auto simp: classifyColors_def Let_def)
  qed
  have none: "classifyColors d = None \<longleftrightarrow> length (buildHist d []) < 2" for d
    by (simp add: classifyColors_def Let_def)
  have noerr: "classifyColors d \<noteq> Some (Inl e)" for d e
  proof (cases "2 \<le> length (buildHist d [])")
    case True
    from pair [OF this] show ?thesis by auto
  next
    case False
    then show ?thesis by (simp add: classifyColors_def Let_def)
  qed
  have fb: "\<exists>c1 c2 rest.
            mset (c1 # c2 # rest) = mset (?es d)
          \<and> count c2 \<le> count c1 \<and> (\<forall>e\<in>set rest. count e \<le> count c2)
          \<and> colorToKey (fst (color c1)) (fst (snd (color c1))) (snd (snd (color c1))) 16
              \<noteq> colorToKey (fst (color c2)) (fst (snd (color c2))) (snd (snd (color c2))) 16
          \<and> classifyColors d
              = Some (Inr (if luminance c1 > luminance c2 then (c1, c2) else (c2, c1)))
          \<and> (\<forall>light dark. classifyColors d = Some (Inr (light, dark))
                \<longrightarrow> luminance dark \<le> luminance light)"
    if len: "2 \<le> length (buildHist d [])"
    and side: "(\<forall>e\<in>set (?es d). \<not> luminance e > 128) \<or> (\<forall>e\<in>set (?es d). luminance e > 128)"
  proof -
    let ?f = "\<lambda>e. - int (count e)"
    let ?K = "\<lambda>e. colorToKey (fst (color e)) (fst (snd (color e))) (snd (snd (color e))) 16"
    from len have len': "2 \<le> length (?es d)" by simp
    then obtain c1 c2 rest where s: "sort_key ?f (?es d) = c1 # c2 # rest"
      and o1: "?f c1 \<le> ?f c2" and o2: "\<forall>e\<in>set rest. ?f c2 \<le> ?f e"
      by (rule sorted_two)
    have m: "mset (c1 # c2 # rest) = mset (?es d)"
      using mset_sort [of ?f "?es d"] unfolding s .
    have "mset (map ?K (c1 # c2 # rest)) = mset (map ?K (?es d))"
      unfolding mset_map m ..
    from mset_eq_imp_distinct_iff [OF this] entries_distinct_keys [of d]
    have "distinct (map ?K (c1 # c2 # rest))" by blast
    then have k: "?K c1 \<noteq> ?K c2" by simp
    have dc: "dominantColors (?es d)
           = Inr (if luminance c1 > luminance c2 then (c1, c2) else (c2, c1))"
      using len' side s by (rule dominantColors_fallback)
    then have cl: "classifyColors d
              = Some (Inr (if luminance c1 > luminance c2 then (c1, c2) else (c2, c1)))"
      using len by (simp add: classifyColors_def Let_def)
    then have lum: "\<forall>light dark. classifyColors d = Some (Inr (light, dark))
                \<longrightarrow> luminance dark \<le> luminance light"
      by (auto split: if_splits)
    from o1 have c: "count c2 \<le> count c1" by simp
    from o2 have r: "\<forall>e\<in>set rest. count e \<le> count c2" by simp
    show ?thesis
      using m c r k cl lum by (intro exI [of _ c1] exI [of _ c2] exI [of _ rest] conjI)
  qed
  have cleared: "removeBackgroundAutomatically img
          = Inr \<lparr>data = replicate (length (data img)) 0,
                 img_width = img_width img, img_height = img_height img\<rparr>"
    if "0 < img_width img" "0 < img_height img" "length (buildHist (data img) []) < 2"
    using that none [of "data img"] by (simp add: removeBackgroundAutomatically_def)
  have total: "\<exists>out. removeBackgroundAutomatically img = Inr out"
  proof (cases "classifyColors (data img)")
    case None
    then show ?thesis by (simp add: removeBackgroundAutomatically_def)
  next
    case (Some c)
    with noerr [of "data img"] obtain light dark where "c = Inr (light, dark)"
      by (cases c) auto
    with Some show ?thesis by (simp add: removeBackgroundAutomatically_def)
  qed
  show ?thesis
  proof (intro conjI)
    show "\<forall>e. classifyColors d \<noteq> Some (Inl e)" using noerr by blast
    show "classifyColors d = None \<longleftrightarrow> length (buildHist d []) < 2" by (rule none)
    show "2 \<le> length (buildHist d []) \<longrightarrow>
        (\<exists>light dark. classifyColors d = Some (Inr (light, dark)))"
      using pair by blast
    show "2 \<le> length (buildHist d [])
        \<and> ((\<forall>e\<in>set (map snd (buildHist d [])). \<not> luminance e > 128)
           \<or> (\<forall>e\<in>set (map snd (buildHist d [])). luminance e > 128)) \<longrightarrow>
        (\<exists>c1 c2 rest.
            mset (c1 # c2 # rest) = mset (map snd (buildHist d []))
          \<and> count c2 \<le> count c1 \<and> (\<forall>e\<in>set rest. count e \<le> count c2)
          \<and> colorToKey (fst (color c1)) (fst (snd (color c1))) (snd (snd (color c1))) 16
              \<noteq> colorToKey (fst (color c2)) (fst (snd (color c2))) (snd (snd (color c2))) 16
          \<and> classifyColors d
              = Some (Inr (if luminance c1 > luminance c2 then (c1, c2) else (c2, c1)))
          \<and> (\<forall>light dark. classifyColors d = Some (Inr (light, dark))
                \<longrightarrow> luminance dark \<le> luminance light))"
    proof
      assume a: "2 \<le> length (buildHist d [])
        \<and> ((\<forall>e\<in>set (map snd (buildHist d [])). \<not> luminance e > 128)
           \<or> (\<forall>e\<in>set (map snd (buildHist d [])). luminance e > 128))"
      from fb [OF conjunct1 [OF a] conjunct2 [OF a]]
      show "\<exists>c1 c2 rest.
            mset (c1 # c2 # rest) = mset (map snd (buildHist d []))
          \<and> count c2 \<le> count c1 \<and> (\<forall>e\<in>set rest. count e \<le> count c2)
          \<and> colorToKey (fst (color c1)) (fst (snd (color c1))) (snd (snd (color c1))) 16
              \<noteq> colorToKey (fst (color c2)) (fst (snd (color c2))) (snd (snd (color c2))) 16
          \<and> classifyColors d
              = Some (Inr (if luminance c1 > luminance c2 then (c1, c2) else (c2, c1)))
          \<and> (\<forall>light dark. classifyColors d = Some (Inr (light, dark))
                \<longrightarrow> luminance dark \<le> luminance light)" .
    qed
    show "0 < img_width img \<and> 0 < img_height img \<and> length (buildHist (data img) []) < 2 \<longrightarrow>
        removeBackgroundAutomatically img
          = Inr \<lparr>data = replicate (length (data img)) 0,
                 img_width = img_width img, img_height = img_height img\<rparr>"
      using cleared by blast
    show "\<exists>out. removeBackgroundAutomatically img = Inr out" by (rule total)
  qed
qed

text \<open>
  The row of \<open>tieRow\<close> has two buckets, both dark, and the more frequent one is the
  lighter by the last bits of its luminance; the white pixel has one bucket.
\<close>

theorem classifyColors_pair_witness:
  "2 \<le> length (buildHist (data tieRow) [])
   \<and> list_all (\<lambda>e. \<not> luminance e > 128) (map snd (buildHist (data tieRow) []))
   \<and> classifyColors (data tieRow)
       = Some (Inr (\<lparr>color = (7, 11, 105), count = 2,
                      luminance = 2887933261051331 / 140737488355328\<rparr>,
                    \<lparr>color = (18, 12, 71), count = 1,
                      luminance = 1443966630525665 / 70368744177664\<rparr>))
   \<and> (\<exists>c1 c2 rest.
          mset (c1 # c2 # rest) = mset (map snd (buildHist (data tieRow) []))
        \<and> count c2 \<le> count c1
        \<and> classifyColors (data tieRow)
            = Some (Inr (if luminance c1 > luminance c2 then (c1, c2) else (c2, c1))))
   \<and> length (buildHist (data white1x1) []) < 2
   \<and> removeBackgroundAutomatically white1x1
       = Inr \<lparr>data = [0, 0, 0, 0], img_width = 1, img_height = 1\<rparr>"
proof -
  have hist: "buildHist (data tieRow) []
      = [((0, 16, 112), \<lparr>color = (7, 11, 105), count = 2,
                           luminance = 2887933261051331 / 140737488355328\<rparr>),
         ((16, 16, 64), \<lparr>color = (18, 12, 71), count = 1,
                           luminance = 1443966630525665 / 70368744177664\<rparr>)]"
    by (simp add: tieRow_def colorToKey_def mathRound_def getLuminance_examples)
  have h1: "2 \<le> length (buildHist (data tieRow) [])" by (simp add: hist)
  have h2: "list_all (\<lambda>e. \<not> luminance e > 128) (map snd (buildHist (data tieRow) []))"
    by (simp add: hist)
  then have h2': "(\<forall>e\<in>set (map snd (buildHist (data tieRow) [])). \<not> luminance e > 128)
           \<or> (\<forall>e\<in>set (map snd (buildHist (data tieRow) [])). luminance e > 128)"
    by (simp add: list_all_iff)
  have c: "classifyColors (data tieRow)
       = Some (Inr (\<lparr>color = (7, 11, 105), count = 2,
                      luminance = 2887933261051331 / 140737488355328\<rparr>,
                    \<lparr>color = (18, 12, 71), count = 1,
                      luminance = 1443966630525665 / 70368744177664\<rparr>))"
    by (simp add: classifyColors_def hist dominantColors_def scanDominant_def)
  have w: "0 < img_width white1x1" "0 < img_height white1x1"
    by (simp_all add: white1x1_def)
  have h3: "length (buildHist (data white1x1) []) < 2"
    by (simp add: white1x1_def)
  note t = classifyColors_pair [of "data tieRow" white1x1]
  from t have t4: "2 \<le> length (buildHist (data tieRow) [])
        \<and> ((\<forall>e\<in>set (map snd (buildHist (data tieRow) [])). \<not> luminance e > 128)
           \<or> (\<forall>e\<in>set (map snd (buildHist (data tieRow) [])). luminance e > 128)) \<longrightarrow>
        (\<exists>c1 c2 rest.
            mset (c1 # c2 # rest) = mset (map snd (buildHist (data tieRow) []))
          \<and> count c2 \<le> count c1 \<and> (\<forall>e\<in>set rest. count e \<le> count c2)
          \<and> colorToKey (fst (color c1)) (fst (snd (color c1))) (snd (snd (color c1))) 16
              \<noteq> colorToKey (fst (color c2)) (fst (snd (color c2))) (snd (snd (color c2))) 16
          \<and> classifyColors (data tieRow)
              = Some (Inr (if luminance c1 > luminance c2 then (c1, c2) else (c2, c1)))
          \<and> (\<forall>light dark. classifyColors (data tieRow) = Some (Inr (light, dark))
                \<longrightarrow> luminance dark \<le> luminance light))"
    by (elim conjE)
  from t4 [rule_format, OF conjI [OF h1 h2']]
  obtain c1 c2 rest where
      f1: "mset (c1 # c2 # rest) = mset (map snd (buildHist (data tieRow) []))"
      and f2: "count c2 \<le> count c1"
      and f3: "classifyColors (data tieRow)
            = Some (Inr (if luminance c1 > luminance c2 then (c1, c2) else (c2, c1)))"
    by (elim exE conjE)
  then have fb: "\<exists>c1 c2 rest.
          mset (c1 # c2 # rest) = mset (map snd (buildHist (data tieRow) []))
        \<and> count c2 \<le> count c1
        \<and> classifyColors (data tieRow)
            = Some (Inr (if luminance c1 > luminance c2 then (c1, c2) else (c2, c1)))"
    by (intro exI [of _ c1] exI [of _ c2] exI [of _ rest] conjI)
  from t have t5: "0 < img_width white1x1 \<and> 0 < img_height white1x1
        \<and> length (buildHist (data white1x1) []) < 2 \<longrightarrow>
        removeBackgroundAutomatically white1x1
          = Inr \<lparr>data = replicate (length (data white1x1)) 0,
                 img_width = img_width white1x1, img_height = img_height white1x1\<rparr>"
    by (elim conjE)
  from t5 w h3 have "removeBackgroundAutomatically white1x1
          = Inr \<lparr>data = replicate (length (data white1x1)) 0,
                 img_width = img_width white1x1, img_height = img_height white1x1\<rparr>"
    by (simp only:)
  then have rb: "removeBackgroundAutomatically white1x1
       = Inr \<lparr>data = [0, 0, 0, 0], img_width = 1, img_height = 1\<rparr>"
    by (simp add: white1x1_def)
  show ?thesis
    using h1 h2 c fb h3 rb by (intro conjI)
qed

text \<open>
  The claim as first stated fails on a single white pixel: its histogram has one
  bucket, no pair is chosen, and the output is the cleared image.
\<close>

theorem single_colour_image_gets_no_pair:
  "buildHist (data white1x1) []
     = [((256, 256, 256), \<lparr>color = (255, 255, 255), count = 1, luminance = 255\<rparr>)]
   \<and> classifyColors (data white1x1) = None
   \<and> removeBackgroundAutomatically white1x1
       = Inr \<lparr>data = [0, 0, 0, 0], img_width = 1, img_height = 1\<rparr>"
proof -
  have h: "buildHist (data white1x1) []
     = [((256, 256, 256), \<lparr>color = (255, 255, 255), count = 1, luminance = 255\<rparr>)]"
    by (simp add: white1x1_def colorToKey_def mathRound_def getLuminance_examples)
  have c: "classifyColors (data white1x1) = None"
    by (simp add: classifyColors_def h)
  have "removeBackgroundAutomatically white1x1
       = Inr \<lparr>data = [0, 0, 0, 0], img_width = 1, img_height = 1\<rparr>"
    unfolding removeBackgroundAutomatically_def c by (simp add: white1x1_def)
  with h c show ?thesis by simp
qed

section \<open>Segmentation\<close>


lemma sqrt_examples:
  "sqrt 100 = 10" "sqrt 900 = 30" "sqrt 1600 = 40" "sqrt 5625 = 75" "sqrt 65025 = 255"
  by (rule real_sqrt_unique; simp)+

lemma colorDistance_examples:
  "colorDistance (0, 0, 0) (0, 0, 0) = 0"
  "colorDistance (0, 0, 0) (255, 0, 0) = 255"
  "colorDistance (0, 0, 0) (40, 0, 0) = 40"
  "colorDistance (40, 0, 0) (0, 0, 0) = 40"
  "colorDistance (40, 0, 0) (40, 0, 0) = 0"
  "colorDistance (30, 0, 0) (0, 0, 0) = 30"
  "colorDistance (30, 0, 0) (40, 0, 0) = 10"
  "colorDistance (75, 0, 0) (0, 0, 0) = 75"
  "colorDistance (75, 0, 0) (75, 0, 255) = 255"
  by (simp_all add: colorDistance.simps double_eval sqrt_examples)

lemma toUint8Clamp_of_nat:
  assumes "n \<le> 255"
  shows "toUint8Clamp (real n) = word_of_nat n"
proof -
  have fl: "\<lfloor>real n\<rfloor> = int n" by simp
  consider "n = 0" | "n = 255" | "0 < n" "n < 255"
    using assms by linarith
  then show ?thesis
  proof cases
    case 1
    then show ?thesis by (simp add: toUint8Clamp_def)
  next
    case 2
    then show ?thesis by (simp add: toUint8Clamp_def)
  next
    case 3
    then have "\<not> real n \<le> 0" "\<not> 255 \<le> real n" by simp_all
    then show ?thesis
      unfolding toUint8Clamp_def Let_def fl by simp
  qed
qed

lemma toUint8Clamp_byte: "toUint8Clamp (real (unat a)) = (a :: byte)"
proof -
  have "unat a \<le> 255"
    using unsigned_less [of a, where 'a = nat] by simp
  then have "toUint8Clamp (real (unat a)) = word_of_nat (unat a)"
    by (rule toUint8Clamp_of_nat)
  then show ?thesis by simp
qed

lemma four_bytes:
  assumes "3 < length d"
  obtains r g b a rest where "d = r # g # b # a # rest"
proof -
  from assms obtain r d1 where d: "d = r # d1" by (cases d) auto
  with assms obtain g d2 where d1: "d1 = g # d2" by (cases d1) auto
  with assms d obtain b d3 where d2: "d2 = b # d3" by (cases d2) auto
  with assms d d1 obtain a rest where d3: "d3 = a # rest" by (cases d3) auto
  show ?thesis using that d d1 d2 d3 by simp
qed

lemma length_perPixel:
  assumes "\<And>r g b a. length (body r g b a) = 4"
  shows "length (perPixel body d) = length d"
  using assms by (induction body d rule: perPixel.induct) simp_all

lemma perPixel_group:
  assumes "\<And>r g b a. length (body r g b a) = 4" and "4 * k + 3 < length d"
  shows "take 4 (drop (4 * k) (perPixel body d))
           = body (d ! (4 * k)) (d ! (4 * k + 1)) (d ! (4 * k + 2)) (d ! (4 * k + 3))"
  using assms(2)
proof (induction k arbitrary: d)
  case 0
  then have "3 < length d" by simp
  then obtain r g b a rest where d: "d = r # g # b # a # rest"
    by (rule four_bytes)
  show ?case by (simp add: d assms(1))
next
  case (Suc k)
  then have "3 < length d" by simp
  then obtain r g b a rest where d: "d = r # g # b # a # rest"
    by (rule four_bytes)
  have "4 * k + 3 < length rest" using Suc.prems by (simp add: d)
  then have "take 4 (drop (4 * k) (perPixel body rest))
           = body (rest ! (4 * k)) (rest ! (4 * k + 1)) (rest ! (4 * k + 2)) (rest ! (4 * k + 3))"
    by (rule Suc.IH)
  then show ?case by (simp add: d assms(1) ac_simps)
qed

lemma nth_of_group:
  assumes "take 4 (drop (4 * k) out) = [p0, p1, p2, p3]"
  shows "out ! (4 * k) = p0 \<and> out ! (4 * k + 1) = p1 \<and> out ! (4 * k + 2) = p2
       \<and> out ! (4 * k + 3) = p3"
proof -
  have len: "4 * k + 3 < length out"
  proof (rule ccontr)
    assume "\<not> 4 * k + 3 < length out"
    then have "length (take 4 (drop (4 * k) out)) < 4" by simp
    with assms show False by simp
  qed
  have "\<And>j. j < 4 \<Longrightarrow> out ! (4 * k + j) = [p0, p1, p2, p3] ! j"
    using len by (simp add: assms [symmetric])
  from this [of 0] this [of 1] this [of 2] this [of 3] show ?thesis by simp
qed

lemma length_segmentPixel: "length (segmentPixel s bgc r g b a) = 4"
  by (simp add: segmentPixel_def Let_def)

lemma length_chromaKeyPixel: "length (chromaKeyPixel s r g b a) = 4"
  by (simp add: chromaKeyPixel_def Let_def)

lemma segmentPixel_low_alpha: "unat a < 25 \<Longrightarrow> segmentPixel s bgc r g b a = [0, 0, 0, 0]"
  by (simp add: segmentPixel_def)

lemma segmentPixel_ink:
  assumes "25 \<le> unat a"
      and "\<not> (colorDistance (unat r, unat g, unat b) bgc < colorDistance (unat r, unat g, unat b) s
              \<and> colorDistance (unat r, unat g, unat b) bgc < 135)"
      and "colorDistance (unat r, unat g, unat b) s \<le> 45"
  shows "segmentPixel s bgc r g b a = [r, g, b, a]"
proof -
  have "(10::nat) < unat a" using assms(1) by simp
  then have "(10::real) < real (unat a)" by (simp del: of_nat_unat)
  then show ?thesis
    using assms unfolding segmentPixel_def Let_def double_constants
    by (simp add: toUint8Clamp_byte del: of_nat_unat)
qed

lemma chromaKeyPixel_low_alpha: "unat a < 100 \<Longrightarrow> chromaKeyPixel s r g b a = [0, 0, 0, 0]"
  by (simp add: chromaKeyPixel_def)

lemma chromaKeyPixel_near:
  assumes "100 \<le> unat a" and "colorDistance (unat r, unat g, unat b) s < 90"
  shows "\<exists>a'. chromaKeyPixel s r g b a = [r, g, b, a']"
  using assms by (simp add: chromaKeyPixel_def Let_def)

text \<open>
  C8 (as amended). For every byte array, every pair of ink and background colours and
  every pixel of the array: the output has the length of the input; a pixel whose
  alpha is 0 (indeed below 25) has alpha 0 in the output; and a pixel with alpha at
  least 25 that is not rejected as background (it is not both nearer to the background
  colour than to the ink colour and within 135 of the background colour) and whose
  distance to the ink colour is at most the opaque threshold 45 keeps its red, green,
  blue and alpha bytes. In the seeded chroma key, a pixel with alpha 0 (indeed below
  100) has alpha 0 in the output, and a pixel with alpha at least 100 and distance to
  the ink colour below 90 keeps its red, green and blue bytes.
\<close>

theorem rebuild_pixel:
  assumes "4 * k + 3 < length d"
  shows "length (rebuild ink bgc d) = length d
     \<and> (unat (d ! (4 * k + 3)) < 25 \<longrightarrow> rebuild ink bgc d ! (4 * k + 3) = 0)
     \<and> (d ! (4 * k + 3) = 0 \<longrightarrow> rebuild ink bgc d ! (4 * k + 3) = 0)
     \<and> (25 \<le> unat (d ! (4 * k + 3))
         \<and> \<not> (colorDistance (unat (d ! (4 * k)), unat (d ! (4 * k + 1)), unat (d ! (4 * k + 2))) bgc
                < colorDistance (unat (d ! (4 * k)), unat (d ! (4 * k + 1)), unat (d ! (4 * k + 2))) ink
              \<and> colorDistance (unat (d ! (4 * k)), unat (d ! (4 * k + 1)), unat (d ! (4 * k + 2))) bgc
                < 135)
         \<and> colorDistance (unat (d ! (4 * k)), unat (d ! (4 * k + 1)), unat (d ! (4 * k + 2))) ink
             \<le> 45
         \<longrightarrow> rebuild ink bgc d ! (4 * k) = d ! (4 * k)
           \<and> rebuild ink bgc d ! (4 * k + 1) = d ! (4 * k + 1)
           \<and> rebuild ink bgc d ! (4 * k + 2) = d ! (4 * k + 2)
           \<and> rebuild ink bgc d ! (4 * k + 3) = d ! (4 * k + 3))
     \<and> length (chromaKey ink d) = length d
     \<and> (unat (d ! (4 * k + 3)) < 100 \<longrightarrow> chromaKey ink d ! (4 * k + 3) = 0)
     \<and> (d ! (4 * k + 3) = 0 \<longrightarrow> chromaKey ink d ! (4 * k + 3) = 0)
     \<and> (100 \<le> unat (d ! (4 * k + 3))
         \<and> colorDistance (unat (d ! (4 * k)), unat (d ! (4 * k + 1)), unat (d ! (4 * k + 2))) ink
             < 90
         \<longrightarrow> chromaKey ink d ! (4 * k) = d ! (4 * k)
           \<and> chromaKey ink d ! (4 * k + 1) = d ! (4 * k + 1)
           \<and> chromaKey ink d ! (4 * k + 2) = d ! (4 * k + 2))"
proof -
  let ?r = "d ! (4 * k)" and ?g = "d ! (4 * k + 1)" and ?b = "d ! (4 * k + 2)"
    and ?a = "d ! (4 * k + 3)"
  have grp: "take 4 (drop (4 * k) (rebuild ink bgc d)) = segmentPixel ink bgc ?r ?g ?b ?a"
    unfolding rebuild_def using length_segmentPixel assms by (rule perPixel_group)
  have grpC: "take 4 (drop (4 * k) (chromaKey ink d)) = chromaKeyPixel ink ?r ?g ?b ?a"
    unfolding chromaKey_def using length_chromaKeyPixel assms by (rule perPixel_group)
  have l1: "length (rebuild ink bgc d) = length d"
    unfolding rebuild_def using length_segmentPixel by (rule length_perPixel)
  have l2: "length (chromaKey ink d) = length d"
    unfolding chromaKey_def using length_chromaKeyPixel by (rule length_perPixel)
  have low: "rebuild ink bgc d ! (4 * k + 3) = 0" if "unat ?a < 25"
  proof -
    from that have "take 4 (drop (4 * k) (rebuild ink bgc d)) = [0, 0, 0, 0]"
      by (simp add: grp segmentPixel_low_alpha)
    then show ?thesis by (rule nth_of_group [THEN conjunct2, THEN conjunct2, THEN conjunct2])
  qed
  have zero: "rebuild ink bgc d ! (4 * k + 3) = 0" if "?a = 0"
    using that low by simp
  have keep: "rebuild ink bgc d ! (4 * k) = ?r \<and> rebuild ink bgc d ! (4 * k + 1) = ?g
           \<and> rebuild ink bgc d ! (4 * k + 2) = ?b \<and> rebuild ink bgc d ! (4 * k + 3) = ?a"
    if "25 \<le> unat ?a"
       "\<not> (colorDistance (unat ?r, unat ?g, unat ?b) bgc < colorDistance (unat ?r, unat ?g, unat ?b) ink
              \<and> colorDistance (unat ?r, unat ?g, unat ?b) bgc < 135)"
       "colorDistance (unat ?r, unat ?g, unat ?b) ink \<le> 45"
  proof -
    from that have "take 4 (drop (4 * k) (rebuild ink bgc d)) = [?r, ?g, ?b, ?a]"
      unfolding grp by (rule segmentPixel_ink)
    then show ?thesis by (rule nth_of_group)
  qed
  have lowC: "chromaKey ink d ! (4 * k + 3) = 0" if "unat ?a < 100"
  proof -
    from that have "take 4 (drop (4 * k) (chromaKey ink d)) = [0, 0, 0, 0]"
      by (simp add: grpC chromaKeyPixel_low_alpha)
    then show ?thesis by (rule nth_of_group [THEN conjunct2, THEN conjunct2, THEN conjunct2])
  qed
  have zeroC: "chromaKey ink d ! (4 * k + 3) = 0" if "?a = 0"
    using that lowC by simp
  have keepC: "chromaKey ink d ! (4 * k) = ?r \<and> chromaKey ink d ! (4 * k + 1) = ?g
           \<and> chromaKey ink d ! (4 * k + 2) = ?b"
    if "100 \<le> unat ?a" "colorDistance (unat ?r, unat ?g, unat ?b) ink < 90"
  proof -
    from that obtain a' where "chromaKeyPixel ink ?r ?g ?b ?a = [?r, ?g, ?b, a']"
      using chromaKeyPixel_near by blast
    then have "take 4 (drop (4 * k) (chromaKey ink d)) = [?r, ?g, ?b, a']"
      by (simp add: grpC)
    from nth_of_group [OF this] show ?thesis by blast
  qed
  show ?thesis
    using l1 l2 low zero keep lowC zeroC keepC by blast
qed

text \<open>An opaque pixel of exactly the ink colour, and a transparent pixel.\<close>

theorem rebuild_pixel_witness:
  "4 * 0 + 3 < length inkAndClear \<and> 4 * 1 + 3 < length inkAndClear
   \<and> inkAndClear ! (4 * 1 + 3) = 0
   \<and> rebuild (0, 0, 0) (255, 0, 0) inkAndClear ! (4 * 1 + 3) = 0
   \<and> chromaKey (0, 0, 0) inkAndClear ! (4 * 1 + 3) = 0
   \<and> 25 \<le> unat (inkAndClear ! (4 * 0 + 3))
   \<and> colorDistance (0, 0, 0) (0, 0, 0) \<le> 45
   \<and> \<not> colorDistance (0, 0, 0) (255, 0, 0) < colorDistance (0, 0, 0) (0, 0, 0)
   \<and> rebuild (0, 0, 0) (255, 0, 0) inkAndClear ! (4 * 0) = 0
   \<and> rebuild (0, 0, 0) (255, 0, 0) inkAndClear ! (4 * 0 + 3) = 255
   \<and> length (rebuild (0, 0, 0) (255, 0, 0) inkAndClear) = 8"
proof -
  have h0: "4 * 0 + 3 < length inkAndClear" and h1: "4 * 1 + 3 < length inkAndClear"
    by (simp_all add: inkAndClear_def)
  have z: "inkAndClear ! (4 * 1 + 3) = 0" by (simp add: inkAndClear_def)
  have px: "inkAndClear ! (4 * 0) = 0" "inkAndClear ! (4 * 0 + 1) = 0"
    "inkAndClear ! (4 * 0 + 2) = 0" "inkAndClear ! (4 * 0 + 3) = 255"
    by (simp_all add: inkAndClear_def)
  have a: "25 \<le> unat (inkAndClear ! (4 * 0 + 3))" by (simp add: inkAndClear_def)
  have di: "colorDistance (0, 0, 0) (0, 0, 0) \<le> 45"
    by (simp add: colorDistance_examples)
  have db: "\<not> colorDistance (0, 0, 0) (255, 0, 0) < colorDistance (0, 0, 0) (0, 0, 0)"
    by (simp add: colorDistance_examples)
  note t0 = rebuild_pixel [OF h0, of "(0, 0, 0)" "(255, 0, 0)"]
  note t1 = rebuild_pixel [OF h1, of "(0, 0, 0)" "(255, 0, 0)"]
  from t1 z have r1: "rebuild (0, 0, 0) (255, 0, 0) inkAndClear ! (4 * 1 + 3) = 0"
    by blast
  from t1 z have c1: "chromaKey (0, 0, 0) inkAndClear ! (4 * 1 + 3) = 0"
    by blast
  from t0 have "25 \<le> unat (inkAndClear ! (4 * 0 + 3))
         \<and> \<not> (colorDistance (unat (inkAndClear ! (4 * 0)), unat (inkAndClear ! (4 * 0 + 1)),
                   unat (inkAndClear ! (4 * 0 + 2))) (255, 0, 0)
                < colorDistance (unat (inkAndClear ! (4 * 0)), unat (inkAndClear ! (4 * 0 + 1)),
                   unat (inkAndClear ! (4 * 0 + 2))) (0, 0, 0)
              \<and> colorDistance (unat (inkAndClear ! (4 * 0)), unat (inkAndClear ! (4 * 0 + 1)),
                   unat (inkAndClear ! (4 * 0 + 2))) (255, 0, 0) < 135)
         \<and> colorDistance (unat (inkAndClear ! (4 * 0)), unat (inkAndClear ! (4 * 0 + 1)),
                   unat (inkAndClear ! (4 * 0 + 2))) (0, 0, 0) \<le> 45
         \<longrightarrow> rebuild (0, 0, 0) (255, 0, 0) inkAndClear ! (4 * 0) = inkAndClear ! (4 * 0)
           \<and> rebuild (0, 0, 0) (255, 0, 0) inkAndClear ! (4 * 0 + 3) = inkAndClear ! (4 * 0 + 3)"
    by blast
  then have r0: "rebuild (0, 0, 0) (255, 0, 0) inkAndClear ! (4 * 0) = 0
      \<and> rebuild (0, 0, 0) (255, 0, 0) inkAndClear ! (4 * 0 + 3) = 255"
    unfolding px by (simp add: colorDistance_examples)
  from t0 have l: "length (rebuild (0, 0, 0) (255, 0, 0) inkAndClear) = 8"
    by (simp add: inkAndClear_def)
  show ?thesis
    using h0 h1 z r1 c1 a di db r0 l by blast
qed

text \<open>
  The claim as first stated fails on the last pixel of \<open>redRow\<close>: it is within 45
  of the ink colour (0, 0, 0) that the classifier chose, yet nearer to the background
  colour (40, 0, 0), so it is cleared and its red byte becomes 0.
\<close>

theorem pixel_near_ink_but_nearer_background_is_cleared:
  "classifyColors (data redRow)
     = Some (Inr (\<lparr>color = (40, 0, 0), count = 2,
                    luminance = 6732881442918891 / 562949953421312\<rparr>,
                  \<lparr>color = (0, 0, 0), count = 2, luminance = 0\<rparr>))
   \<and> data redRow ! 16 = 30 \<and> data redRow ! 19 = 255
   \<and> colorDistance (30, 0, 0) (0, 0, 0) \<le> 45
   \<and> removeBackgroundAutomatically redRow
       = Inr \<lparr>data = [0, 0, 0, 255,  0, 0, 0, 255,  0, 0, 0, 0,  0, 0, 0, 0,  0, 0, 0, 0],
              img_width = 5, img_height = 1\<rparr>
   \<and> rebuild (0, 0, 0) (40, 0, 0) (data redRow) ! 16 \<noteq> data redRow ! 16"
proof -
  have hist: "buildHist (data redRow) []
      = [((0, 0, 0), \<lparr>color = (0, 0, 0), count = 2, luminance = 0\<rparr>),
         ((48, 0, 0), \<lparr>color = (40, 0, 0), count = 2,
                         luminance = 6732881442918891 / 562949953421312\<rparr>),
         ((32, 0, 0), \<lparr>color = (30, 0, 0), count = 1,
                         luminance = 315603817636823 / 35184372088832\<rparr>)]"
    by (simp add: redRow_def colorToKey_def mathRound_def getLuminance_examples)
  have c: "classifyColors (data redRow)
     = Some (Inr (\<lparr>color = (40, 0, 0), count = 2,
                    luminance = 6732881442918891 / 562949953421312\<rparr>,
                  \<lparr>color = (0, 0, 0), count = 2, luminance = 0\<rparr>))"
    by (simp add: classifyColors_def hist dominantColors_def scanDominant_def)
  have r: "rebuild (0, 0, 0) (40, 0, 0) (data redRow)
       = [0, 0, 0, 255,  0, 0, 0, 255,  0, 0, 0, 0,  0, 0, 0, 0,  0, 0, 0, 0]"
    by (simp add: rebuild_def redRow_def segmentPixel_def Let_def colorDistance_examples
          double_constants toUint8Clamp_def)
  have d: "colorDistance (30, 0, 0) (0, 0, 0) \<le> 45"
    by (simp add: colorDistance_examples)
  have rb: "removeBackgroundAutomatically redRow
       = Inr \<lparr>data = [0, 0, 0, 255,  0, 0, 0, 255,  0, 0, 0, 0,  0, 0, 0, 0,  0, 0, 0, 0],
              img_width = 5, img_height = 1\<rparr>"
    unfolding removeBackgroundAutomatically_def c by (simp add: r) (simp add: redRow_def)
  have n: "data redRow ! 16 = 30" "data redRow ! 19 = 255" by (simp_all add: redRow_def)
  show ?thesis
    using c d rb n by (simp add: r)
qed

text \<open>
  Two pixels in the feathering bands, where the last bits of the doubles decide the
  stored alpha: the histogram form keeps alpha 10 (the product is just above 10), and
  the seeded form stores 3 (the product is just below 3.5).
\<close>

lemma feathered_alpha_examples:
  "segmentPixel (0, 0, 0) (75, 0, 255) 75 0 0 30 = [75, 0, 0, 10]"
  "chromaKeyPixel (0, 0, 0) 75 0 0 126 = [75, 0, 0, 3]"
  by (simp_all add: segmentPixel_def chromaKeyPixel_def Let_def colorDistance_examples
        double_constants double_eval toUint8Clamp_def)

end
